theory Spec2Isabelle
  imports Main "HOL-Library.Word"
begin

section \<open>JavaScript strings, errors and the ambient environment\<close>

text \<open>
  A JavaScript string is a sequence of 16-bit code units. \<open>lit\<close> embeds a literal whose
  characters lie below U+0100, where the code unit is the character code.
\<close>

type_synonym jsstring = "16 word list"

definition lit :: "string \<Rightarrow> jsstring" where
  "lit s = map of_char s"

text \<open>
  Every value thrown in the service module is an error object with a string message:
  \<open>new Error(...)\<close>, the \<open>SyntaxError\<close> of \<open>JSON.parse\<close>, the \<open>TypeError\<close> of a property
  read on \<open>null\<close>, and whatever error object the remote capability rejects with. The
  \<open>catch\<close> clause of the wrapper reads \<open>error.message\<close>; operations are taken to throw
  such objects only.
\<close>

datatype error = Error jsstring | SyntaxError jsstring | TypeError jsstring

fun message :: "error \<Rightarrow> jsstring" where
  "message (Error m) = m"
| "message (SyntaxError m) = m"
| "message (TypeError m) = m"

text \<open>
  The ambient state the module reads: \<open>window\<close> is \<open>None\<close> when \<open>typeof window\<close> is
  \<open>'undefined'\<close> and otherwise holds \<open>localStorage.getItem\<close>; the two process variables
  are \<open>None\<close> when undefined.
\<close>

record env =
  window :: "(jsstring \<Rightarrow> jsstring option) option"
  API_KEY :: "jsstring option"
  GEMINI_API_KEY :: "jsstring option"

text \<open>A string-or-undefined value is truthy when it is a non-empty string.\<close>

fun truthyStr :: "jsstring option \<Rightarrow> bool" where
  "truthyStr None = False"
| "truthyStr (Some s) = (s \<noteq> [])"

definition getApiKey :: "env \<Rightarrow> jsstring" where
  "getApiKey e =
    (let localKey = (case window e of None \<Rightarrow> None
                     | Some getItem \<Rightarrow> getItem (lit ''lingua_api_key''))
     in if window e \<noteq> None \<and> truthyStr localKey then the localKey
        else (let key = (if truthyStr (API_KEY e) then API_KEY e else GEMINI_API_KEY e)
              in if \<not> truthyStr key then [] else the key))"

section \<open>Supported models and the candidate chain\<close>

record modelInfo =
  modelId :: jsstring
  name :: jsstring
  desc :: jsstring
  isNew :: "bool option"

definition SUPPORTED_MODELS :: "modelInfo list" where
  "SUPPORTED_MODELS =
    [\<lparr>modelId = lit ''gemini-3-flash-preview'', name = lit ''Gemini 3 Flash'',
      desc = lit ''Fastest, low latency (Default)'', isNew = Some True\<rparr>,
     \<lparr>modelId = lit ''gemini-3-pro-preview'', name = lit ''Gemini 3 Pro'',
      desc = lit ''High intelligence, complex tasks'', isNew = Some True\<rparr>,
     \<lparr>modelId = lit ''gemini-2.5-flash'', name = lit ''Gemini 2.5 Flash'',
      desc = lit ''Balanced performance'', isNew = None\<rparr>]"

definition FALLBACK_ORDER :: "jsstring list" where
  "FALLBACK_ORDER =
    [lit ''gemini-3-flash-preview'', lit ''gemini-3-pro-preview'', lit ''gemini-2.5-flash'']"

text \<open>
  \<open>new Set(iterable)\<close> adds the elements one by one; an element already present is not
  added again, and \<open>Array.from\<close> lists the set in insertion order.
\<close>

definition Set_add :: "'a list \<Rightarrow> 'a \<Rightarrow> 'a list" where
  "Set_add s x = (if x \<in> set s then s else s @ [x])"

definition new_Set :: "'a list \<Rightarrow> 'a list" where
  "new_Set xs = fold (\<lambda>x s. Set_add s x) xs []"

text \<open>The persisted preference, when there is a window and the key is stored.\<close>

definition savedModel :: "env \<Rightarrow> jsstring option" where
  "savedModel e = (case window e of None \<Rightarrow> None
                   | Some getItem \<Rightarrow> getItem (lit ''lingua_selected_model''))"

definition currentModel :: "env \<Rightarrow> jsstring" where
  "currentModel e =
    (if window e \<noteq> None \<and> truthyStr (savedModel e)
        \<and> list_ex (\<lambda>m. modelId m = the (savedModel e)) SUPPORTED_MODELS
     then the (savedModel e)
     else lit ''gemini-3-flash-preview'')"

definition uniqueFallbacks :: "env \<Rightarrow> jsstring list" where
  "uniqueFallbacks e = new_Set (currentModel e # FALLBACK_ORDER)"

section \<open>The retry and fallback wrapper\<close>

record client =
  apiKey :: jsstring

text \<open>
  The trace of a call: one \<open>Invocation\<close> per call of \<open>operationFn\<close>, with the operation
  label, the model it was called with, and the invocations made inside that call
  (an interview turn calls the wrapper again for speech). It is the structured form of
  the console line \<open>[operationName] Attempting with model: model\<close>.

  One call of \<open>operationFn\<close> yields its outcome and the invocations nested in it. Within
  one run of the loop every model is passed at most once, so the behaviour of an
  operation in that run is a function of the model and the client.
\<close>

datatype invocation = Invocation jsstring jsstring "invocation list"

fun invModel :: "invocation \<Rightarrow> jsstring" where
  "invModel (Invocation label model nested) = model"

fun invNested :: "invocation \<Rightarrow> invocation list" where
  "invNested (Invocation label model nested) = nested"

type_synonym 'a outcome = "(error + 'a) \<times> invocation list"

definition missingKeyMessage :: jsstring where
  "missingKeyMessage = lit ''API Key is missing. Please click 'Settings' to add your key.''"

text \<open>The template of the final error; \<open>lastError?.message\<close> of \<open>null\<close> prints as \<open>undefined\<close>.\<close>

definition exhaustedMessage :: "error option \<Rightarrow> jsstring" where
  "exhaustedMessage lastError =
    lit ''System overloaded or Model Error. Please try again later. (Last error: ''
    @ (case lastError of None \<Rightarrow> lit ''undefined'' | Some err \<Rightarrow> message err)
    @ lit '')''"

text \<open>The \<open>for\<close> loop over the candidates, with \<open>lastError\<close> as it stands on entry.\<close>

fun tryModels ::
  "jsstring \<Rightarrow> (jsstring \<Rightarrow> client \<Rightarrow> 'a outcome) \<Rightarrow> jsstring \<Rightarrow> jsstring list
    \<Rightarrow> error option \<Rightarrow> 'a outcome" where
  "tryModels operationName operationFn key [] lastError =
    (Inl (Error (exhaustedMessage lastError)), [])"
| "tryModels operationName operationFn key (model # rest) lastError =
    (case operationFn model \<lparr>apiKey = key\<rparr> of
       (Inr result, nested) \<Rightarrow> (Inr result, [Invocation operationName model nested])
     | (Inl err, nested) \<Rightarrow>
         (case tryModels operationName operationFn key rest (Some err) of
            (r, trace) \<Rightarrow> (r, Invocation operationName model nested # trace)))"

definition callAIWithRetry ::
  "env \<Rightarrow> jsstring \<Rightarrow> (jsstring \<Rightarrow> client \<Rightarrow> 'a outcome) \<Rightarrow> 'a outcome" where
  "callAIWithRetry e operationName operationFn =
    (let key = getApiKey e
     in if key = [] then (Inl (Error missingKeyMessage), [])
        else tryModels operationName operationFn key (uniqueFallbacks e) None)"

text \<open>\<open>String.prototype.includes\<close>: the needle occurs at some offset of the text.\<close>

definition str_includes :: "'a list \<Rightarrow> 'a list \<Rightarrow> bool" where
  "str_includes s needle =
    list_ex (\<lambda>i. take (length needle) (drop i s) = needle) [0 ..< Suc (length s)]"

section \<open>Cleaning the model's text\<close>

definition startsWith :: "'a list \<Rightarrow> 'a list \<Rightarrow> bool" where
  "startsWith s p = (take (length p) s = p)"

text \<open>
  \<open>str.replace(/```json\n?|```/g, "")\<close>: the text is scanned from the left; at each
  position the first alternative (the tagged fence, then greedily one line feed) is tried
  before the bare fence; a match is deleted and scanning resumes behind it; a code unit
  where nothing matches is kept.
\<close>

function stripFences :: "jsstring \<Rightarrow> jsstring" where
  "stripFences [] = []"
| "stripFences (c # cs) =
    (if startsWith (c # cs) (lit ''```json'') then
       (if startsWith (drop 6 cs) [0x0A] then stripFences (drop 7 cs)
        else stripFences (drop 6 cs))
     else if startsWith (c # cs) (lit ''```'') then stripFences (drop 2 cs)
     else c # stripFences cs)"
  by pat_completeness auto
termination
  by (relation "measure length") auto

text \<open>
  \<open>String.prototype.trim\<close> removes the WhiteSpace and LineTerminator code units of
  ECMAScript from both ends.
\<close>

definition isWhiteSpace :: "16 word \<Rightarrow> bool" where
  "isWhiteSpace c \<longleftrightarrow>
     c = 0x09 \<or> c = 0x0A \<or> c = 0x0B \<or> c = 0x0C \<or> c = 0x0D \<or> c = 0x20 \<or> c = 0xA0
     \<or> c = 0x1680 \<or> (0x2000 \<le> c \<and> c \<le> 0x200A) \<or> c = 0x2028 \<or> c = 0x2029
     \<or> c = 0x202F \<or> c = 0x205F \<or> c = 0x3000 \<or> c = 0xFEFF"

definition trim :: "jsstring \<Rightarrow> jsstring" where
  "trim s = rev (dropWhile isWhiteSpace (rev (dropWhile isWhiteSpace s)))"

definition cleanJsonString :: "jsstring \<Rightarrow> jsstring" where
  "cleanJsonString str = trim (stripFences str)"

text \<open>
  Deleting every occurrence, read to the letter: a code unit goes when it lies in any
  occurrence of the tagged fence, is the line feed right behind one, or lies in any
  occurrence of the bare fence, whether or not occurrences overlap.
\<close>

definition occursAt :: "'a list \<Rightarrow> 'a list \<Rightarrow> nat \<Rightarrow> bool" where
  "occursAt s needle j = (take (length needle) (drop j s) = needle)"

definition inOccurrence :: "jsstring \<Rightarrow> nat \<Rightarrow> bool" where
  "inOccurrence s i =
    list_ex (\<lambda>j. (occursAt s (lit ''```json'') j \<and> (i < j + 7 \<or> (i = j + 7 \<and> s ! i = 0x0A)))
                \<or> (occursAt s (lit ''```'') j \<and> i < j + 3))
      [0 ..< Suc i]"

definition deleteAllOccurrences :: "jsstring \<Rightarrow> jsstring" where
  "deleteAllOccurrences s =
    map (\<lambda>i. s ! i) (filter (\<lambda>i. \<not> inOccurrence s i) [0 ..< length s])"

section \<open>JavaScript values and \<open>JSON.parse\<close>\<close>

text \<open>
  A number is kept as the exact decimal \<open>m * 10 ^ e\<close> of its literal (\<open>JNumber m e\<close>); the
  program never computes with numbers. An object is the list of its own properties in
  insertion order, with distinct keys.
\<close>

datatype jsval =
    JUndefined
  | JNull
  | JBool bool
  | JNumber int int
  | JString jsstring
  | JArray "jsval list"
  | JObject "(jsstring \<times> jsval) list"

text \<open>
  The decimal \<open>m * 10 ^ e\<close> becomes the Number zero when it is zero or at most half the
  least positive double, \<open>2 ^ -1075\<close> (round to nearest, ties to even).
\<close>

definition roundsToZero :: "int \<Rightarrow> int \<Rightarrow> bool" where
  "roundsToZero m e \<longleftrightarrow> m = 0 \<or> (e < 0 \<and> \<bar>m\<bar> * 2 ^ 1075 \<le> 10 ^ nat (- e))"

fun truthy :: "jsval \<Rightarrow> bool" where
  "truthy JUndefined = False"
| "truthy JNull = False"
| "truthy (JBool b) = b"
| "truthy (JNumber m e) = (\<not> roundsToZero m e)"
| "truthy (JString s) = (s \<noteq> [])"
| "truthy (JArray xs) = True"
| "truthy (JObject ps) = True"

text \<open>Defining a property: an existing key keeps its place and takes the new value.\<close>

fun setProp :: "jsstring \<Rightarrow> jsval \<Rightarrow> (jsstring \<times> jsval) list \<Rightarrow> (jsstring \<times> jsval) list" where
  "setProp k v [] = [(k, v)]"
| "setProp k v (p # ps) = (if fst p = k then (k, v) # ps else p # setProp k v ps)"

text \<open>
  Reading a property whose name is neither an index, \<open>length\<close> nor inherited (the
  program reads \<open>response\<close> and \<open>transcription\<close>): a \<open>TypeError\<close> on \<open>null\<close> and
  \<open>undefined\<close>, the own property of an object, \<open>undefined\<close> otherwise. The text of the
  \<open>TypeError\<close> is the engine's.
\<close>

definition nullReadMessage :: jsstring where
  "nullReadMessage = lit ''Cannot read properties of null''"

fun getProp :: "jsval \<Rightarrow> jsstring \<Rightarrow> error + jsval" where
  "getProp JNull k = Inl (TypeError nullReadMessage)"
| "getProp JUndefined k = Inl (TypeError nullReadMessage)"
| "getProp (JObject ps) k = (case map_of ps k of None \<Rightarrow> Inr JUndefined | Some v \<Rightarrow> Inr v)"
| "getProp v k = Inr JUndefined"

subsection \<open>Tokens\<close>

datatype token =
    TLBrace | TRBrace | TLBracket | TRBracket | TColon | TComma
  | TString jsstring | TNumber int int | TTrue | TFalse | TNull

definition isJsonSpace :: "16 word \<Rightarrow> bool" where
  "isJsonSpace c \<longleftrightarrow> c = 0x09 \<or> c = 0x0A \<or> c = 0x0D \<or> c = 0x20"

definition isDigit :: "16 word \<Rightarrow> bool" where
  "isDigit c \<longleftrightarrow> 0x30 \<le> c \<and> c \<le> 0x39"

definition hexDigit :: "16 word \<Rightarrow> nat option" where
  "hexDigit c =
    (if 0x30 \<le> c \<and> c \<le> 0x39 then Some (unat c - 0x30)
     else if 0x41 \<le> c \<and> c \<le> 0x46 then Some (unat c - 0x41 + 10)
     else if 0x61 \<le> c \<and> c \<le> 0x66 then Some (unat c - 0x61 + 10)
     else None)"

definition hex4 :: "jsstring \<Rightarrow> 16 word option" where
  "hex4 cs =
    (case map hexDigit (take 4 cs) of
       [Some a, Some b, Some c, Some d] \<Rightarrow> Some (of_nat (((a * 16 + b) * 16 + c) * 16 + d))
     | _ \<Rightarrow> None)"

definition unescape :: "16 word \<Rightarrow> 16 word option" where
  "unescape c =
    (if c = 0x22 then Some 0x22
     else if c = 0x5C then Some 0x5C
     else if c = 0x2F then Some 0x2F
     else if c = 0x62 then Some 0x08
     else if c = 0x66 then Some 0x0C
     else if c = 0x6E then Some 0x0A
     else if c = 0x72 then Some 0x0D
     else if c = 0x74 then Some 0x09
     else None)"

text \<open>
  The body of a string literal, behind the opening quote: the decoded code units and the
  input behind the closing quote. A control code unit below U+0020 is not allowed.
\<close>

fun scanString :: "jsstring \<Rightarrow> (jsstring \<times> jsstring) option" where
  "scanString [] = None"
| "scanString (c # cs) =
    (if c = 0x22 then Some ([], cs)
     else if c = 0x5C then
       (case cs of
          [] \<Rightarrow> None
        | e # cs' \<Rightarrow>
            if e = 0x75 then
              (case hex4 cs' of
                 None \<Rightarrow> None
               | Some u \<Rightarrow>
                   (case scanString (drop 4 cs') of
                      None \<Rightarrow> None
                    | Some (s, r) \<Rightarrow> Some (u # s, r)))
            else
              (case unescape e of
                 None \<Rightarrow> None
               | Some x \<Rightarrow>
                   (case scanString cs' of
                      None \<Rightarrow> None
                    | Some (s, r) \<Rightarrow> Some (x # s, r))))
     else if c < 0x20 then None
     else (case scanString cs of
             None \<Rightarrow> None
           | Some (s, r) \<Rightarrow> Some (c # s, r)))"

text \<open>The value of a run of decimal digits.\<close>

definition digitsValue :: "jsstring \<Rightarrow> nat" where
  "digitsValue ds = foldl (\<lambda>n d. n * 10 + (unat d - 0x30)) 0 ds"

text \<open>
  A number literal is an optional minus, an integer part without a leading zero, an
  optional fraction and an optional exponent. Each scanner returns what it read and the
  input behind it.
\<close>

definition scanInt :: "jsstring \<Rightarrow> (jsstring \<times> jsstring) option" where
  "scanInt s =
    (let ip = takeWhile isDigit s
     in if ip = [] \<or> (1 < length ip \<and> hd ip = 0x30) then None
        else Some (ip, dropWhile isDigit s))"

definition scanFrac :: "jsstring \<Rightarrow> (jsstring \<times> jsstring) option" where
  "scanFrac s =
    (if startsWith s [0x2E] then
       (let fp = takeWhile isDigit (drop 1 s)
        in if fp = [] then None else Some (fp, dropWhile isDigit (drop 1 s)))
     else Some ([], s))"

definition scanExp :: "jsstring \<Rightarrow> (int \<times> jsstring) option" where
  "scanExp s =
    (if startsWith s [0x65] \<or> startsWith s [0x45] then
       (let s1 = drop 1 s;
            neg = startsWith s1 [0x2D];
            s2 = (if neg \<or> startsWith s1 [0x2B] then drop 1 s1 else s1);
            ep = takeWhile isDigit s2;
            x = int (digitsValue ep)
        in if ep = [] then None else Some (if neg then - x else x, dropWhile isDigit s2))
     else Some (0, s))"

text \<open>The mantissa, the decimal exponent and the input behind the literal.\<close>

definition scanNumber :: "jsstring \<Rightarrow> ((int \<times> int) \<times> jsstring) option" where
  "scanNumber s =
    (let neg = startsWith s [0x2D]
     in case scanInt (if neg then drop 1 s else s) of
          None \<Rightarrow> None
        | Some (ip, s2) \<Rightarrow>
            (case scanFrac s2 of
               None \<Rightarrow> None
             | Some (fp, s3) \<Rightarrow>
                 (case scanExp s3 of
                    None \<Rightarrow> None
                  | Some (x, s4) \<Rightarrow>
                      (let m = int (digitsValue (ip @ fp))
                       in Some ((if neg then - m else m, x - int (length fp)), s4)))))"

text \<open>Every scanner consumes input, so the tokenizer below terminates.\<close>

lemma scanString_shorter:
  "scanString cs = Some (s, r) \<Longrightarrow> length r < length cs"
proof (induction cs arbitrary: s r rule: scanString.induct)
  case 1
  then show ?case by simp
next
  case (2 c cs)
  show ?case
  proof (cases "c = 0x22")
    case True
    then show ?thesis using "2.prems" by auto
  next
    case nq: False
    show ?thesis
    proof (cases "c = 0x5C")
      case True
      then show ?thesis
        using "2.prems" "2.IH"(1,2) nq
        by (fastforce split: list.splits option.splits if_splits)
    next
      case False
      then show ?thesis
        using "2.prems" "2.IH"(3) nq
        by (fastforce split: option.splits if_splits)
    qed
  qed
qed

lemma scanInt_shorter: "scanInt s = Some (ip, r) \<Longrightarrow> length r < length s"
proof -
  assume a: "scanInt s = Some (ip, r)"
  then have ne: "takeWhile isDigit s \<noteq> []" and r: "r = dropWhile isDigit s"
    by (auto simp: scanInt_def Let_def split: if_splits)
  have "length (takeWhile isDigit s) + length r = length s"
    unfolding r by (metis length_append takeWhile_dropWhile_id)
  then show ?thesis using ne by (cases "takeWhile isDigit s") auto
qed

lemma scanFrac_shorter: "scanFrac s = Some (fp, r) \<Longrightarrow> length r \<le> length s"
  using length_dropWhile_le [of isDigit "drop 1 s"]
  by (auto simp: scanFrac_def Let_def split: if_splits)

lemma scanExp_shorter: "scanExp s = Some (x, r) \<Longrightarrow> length r \<le> length s"
  using length_dropWhile_le [of isDigit "drop 1 (drop 1 s)"]
    length_dropWhile_le [of isDigit "drop 1 s"]
  by (auto simp: scanExp_def Let_def split: if_splits)

lemma scanNumber_shorter:
  "scanNumber s = Some (n, r) \<Longrightarrow> length r < length s"
proof -
  assume a: "scanNumber s = Some (n, r)"
  let ?s1 = "if startsWith s [0x2D] then drop 1 s else s"
  from a obtain ip s2 fp s3 x where
    i: "scanInt ?s1 = Some (ip, s2)" and f: "scanFrac s2 = Some (fp, s3)"
    and e: "scanExp s3 = Some (x, r)"
    by (auto simp: scanNumber_def Let_def split: option.splits)
  have "length ?s1 \<le> length s" by simp
  then show ?thesis
    using scanInt_shorter [OF i] scanFrac_shorter [OF f] scanExp_shorter [OF e] by linarith
qed

definition punctuation :: "16 word \<Rightarrow> token option" where
  "punctuation c =
    (if c = 0x7B then Some TLBrace
     else if c = 0x7D then Some TRBrace
     else if c = 0x5B then Some TLBracket
     else if c = 0x5D then Some TRBracket
     else if c = 0x3A then Some TColon
     else if c = 0x2C then Some TComma
     else None)"

function tokenize :: "jsstring \<Rightarrow> token list option" where
  "tokenize [] = Some []"
| "tokenize (c # cs) =
    (if isJsonSpace c then tokenize cs
     else if punctuation c \<noteq> None then
       (case tokenize cs of None \<Rightarrow> None | Some ts \<Rightarrow> Some (the (punctuation c) # ts))
     else if c = 0x22 then
       (case scanString cs of
          None \<Rightarrow> None
        | Some (s, r) \<Rightarrow>
            (case tokenize r of None \<Rightarrow> None | Some ts \<Rightarrow> Some (TString s # ts)))
     else if c = 0x2D \<or> isDigit c then
       (case scanNumber (c # cs) of
          None \<Rightarrow> None
        | Some ((m, e), r) \<Rightarrow>
            (case tokenize r of None \<Rightarrow> None | Some ts \<Rightarrow> Some (TNumber m e # ts)))
     else if startsWith (c # cs) (lit ''true'') then
       (case tokenize (drop 3 cs) of None \<Rightarrow> None | Some ts \<Rightarrow> Some (TTrue # ts))
     else if startsWith (c # cs) (lit ''false'') then
       (case tokenize (drop 4 cs) of None \<Rightarrow> None | Some ts \<Rightarrow> Some (TFalse # ts))
     else if startsWith (c # cs) (lit ''null'') then
       (case tokenize (drop 3 cs) of None \<Rightarrow> None | Some ts \<Rightarrow> Some (TNull # ts))
     else None)"
  by pat_completeness auto
termination
proof (relation "measure length")
  fix c :: "16 word" and cs x2 s r
  assume "scanString cs = Some x2" and "(s, r) = x2"
  then show "(r, c # cs) \<in> measure length"
    using scanString_shorter [of cs s r] by simp
next
  fix c :: "16 word" and cs x2 n r m e
  assume "scanNumber (c # cs) = Some x2" and "(n, r) = x2" and "(m, e) = n"
  then show "(r, c # cs) \<in> measure length"
    using scanNumber_shorter [of "c # cs" n r] by simp
qed auto

subsection \<open>The grammar\<close>

text \<open>
  The tokens are read by a stack machine. A frame is an array under construction, an
  object under construction, or the key of the member whose value is being read.
\<close>

datatype frame =
    FArray "jsval list"
  | FObject "(jsstring \<times> jsval) list"
  | FMember jsstring

datatype expect =
    EValue | EArrayFirst | EArrayNext | EObjectFirst | EObjectKey | EColon | EObjectNext
  | EEnd jsval

text \<open>A finished value goes to the enclosing array or member, or ends the text.\<close>

fun complete :: "jsval \<Rightarrow> frame list \<Rightarrow> (expect \<times> frame list) option" where
  "complete v [] = Some (EEnd v, [])"
| "complete v (FArray es # st) = Some (EArrayNext, FArray (es @ [v]) # st)"
| "complete v (FMember k # FObject ps # st) = Some (EObjectNext, FObject (setProp k v ps) # st)"
| "complete v st = None"

definition startsValue :: "expect \<Rightarrow> bool" where
  "startsValue ex \<longleftrightarrow> ex = EValue \<or> ex = EArrayFirst"

fun step :: "expect \<Rightarrow> frame list \<Rightarrow> token \<Rightarrow> (expect \<times> frame list) option" where
  "step ex st TLBracket = (if startsValue ex then Some (EArrayFirst, FArray [] # st) else None)"
| "step ex st TLBrace = (if startsValue ex then Some (EObjectFirst, FObject [] # st) else None)"
| "step ex st TRBracket =
    (case st of
       FArray es # st' \<Rightarrow>
         if ex = EArrayFirst \<or> ex = EArrayNext then complete (JArray es) st' else None
     | _ \<Rightarrow> None)"
| "step ex st TRBrace =
    (case st of
       FObject ps # st' \<Rightarrow>
         if ex = EObjectFirst \<or> ex = EObjectNext then complete (JObject ps) st' else None
     | _ \<Rightarrow> None)"
| "step ex st TComma =
    (if ex = EArrayNext then Some (EValue, st)
     else if ex = EObjectNext then Some (EObjectKey, st)
     else None)"
| "step ex st TColon = (if ex = EColon then Some (EValue, st) else None)"
| "step ex st (TString s) =
    (if startsValue ex then complete (JString s) st
     else if ex = EObjectFirst \<or> ex = EObjectKey then Some (EColon, FMember s # st)
     else None)"
| "step ex st (TNumber m e) = (if startsValue ex then complete (JNumber m e) st else None)"
| "step ex st TTrue = (if startsValue ex then complete (JBool True) st else None)"
| "step ex st TFalse = (if startsValue ex then complete (JBool False) st else None)"
| "step ex st TNull = (if startsValue ex then complete JNull st else None)"

fun parseTokens :: "expect \<Rightarrow> frame list \<Rightarrow> token list \<Rightarrow> jsval option" where
  "parseTokens ex st [] = (case ex of EEnd v \<Rightarrow> Some v | _ \<Rightarrow> None)"
| "parseTokens ex st (t # ts) =
    (case step ex st t of None \<Rightarrow> None | Some (ex', st') \<Rightarrow> parseTokens ex' st' ts)"

text \<open>The text of the \<open>SyntaxError\<close> is the engine's.\<close>

definition jsonSyntaxMessage :: jsstring where
  "jsonSyntaxMessage = lit ''Unexpected token in JSON''"

definition JSON_parse :: "jsstring \<Rightarrow> error + jsval" where
  "JSON_parse s =
    (case tokenize s of
       None \<Rightarrow> Inl (SyntaxError jsonSyntaxMessage)
     | Some ts \<Rightarrow>
         (case parseTokens EValue [] ts of
            None \<Rightarrow> Inl (SyntaxError jsonSyntaxMessage)
          | Some v \<Rightarrow> Inr v))"

section \<open>The task callers\<close>

text \<open>
  The answer of the remote capability, as far as the program reads it: the inline data
  of the first part of the first candidate, and the \<open>text\<close> of the response
  (\<open>responseText\<close>). Every level may be absent.
\<close>

record blob =
  data :: "jsstring option"

record part =
  inlineData :: "blob option"

record content =
  parts :: "part list option"

record candidate =
  content :: "content option"

record response =
  candidates :: "candidate list option"
  responseText :: "jsstring option"

text \<open>
  \<open>ai.models.generateContent\<close> for the request of one caller. The prompt, the parts and
  the configuration are the same on every attempt of a call; the client and the model
  vary, so the capability is a function of these two.
\<close>

type_synonym generateContent = "client \<Rightarrow> jsstring \<Rightarrow> error + response"

text \<open>\<open>xs?.[0]\<close> on an array.\<close>

fun first :: "'a list \<Rightarrow> 'a option" where
  "first [] = None"
| "first (x # xs) = Some x"

text \<open>\<open>response.candidates?.[0]?.content?.parts?.[0]?.inlineData?.data\<close>\<close>

definition base64Audio :: "response \<Rightarrow> jsstring option" where
  "base64Audio response =
    Option.bind (Option.bind (Option.bind (Option.bind (Option.bind (Option.bind
      (candidates response) first) content) parts) first) inlineData) data"

text \<open>The operation that \<open>generateSpeech\<close> hands to the wrapper.\<close>

definition speechAttempt :: "generateContent \<Rightarrow> jsstring \<Rightarrow> client \<Rightarrow> jsstring outcome" where
  "speechAttempt generate model ai =
    (case generate ai model of
       Inl err \<Rightarrow> (Inl err, [])
     | Inr response \<Rightarrow>
         (if \<not> truthyStr (base64Audio response)
          then (Inl (Error (lit ''No audio generated'')), [])
          else (Inr (the (base64Audio response)), [])))"

text \<open>
  \<open>generateSpeech\<close>; \<open>synth txt\<close> is the capability for the audio request that carries
  \<open>txt\<close>. The \<open>catch\<close> handler turns every rejection of the wrapper into the empty string.
\<close>

definition generateSpeech ::
  "env \<Rightarrow> (jsval \<Rightarrow> generateContent) \<Rightarrow> jsval \<Rightarrow> jsstring outcome" where
  "generateSpeech e synth txt =
    (case callAIWithRetry e (lit ''generateSpeech'') (speechAttempt (synth txt)) of
       (Inl err, trace) \<Rightarrow> (Inr [], trace)
     | (Inr audio, trace) \<Rightarrow> (Inr audio, trace))"

text \<open>
  The operation of \<open>analyzeWriting\<close>, \<open>gradeSpeakingSession\<close> and \<open>analyzePronunciation\<close>,
  which differ in the request only: \<open>cleanJsonString(response.text || "{}")\<close>, then
  \<open>JSON.parse\<close>.
\<close>

definition jsonAttempt :: "generateContent \<Rightarrow> jsstring \<Rightarrow> client \<Rightarrow> jsval outcome" where
  "jsonAttempt generate model ai =
    (case generate ai model of
       Inl err \<Rightarrow> (Inl err, [])
     | Inr response \<Rightarrow>
         (let jsonText = cleanJsonString
                (if truthyStr (responseText response) then the (responseText response)
                 else lit ''{}'')
          in case JSON_parse jsonText of
               Inl err \<Rightarrow> (Inl err, [])
             | Inr v \<Rightarrow> (Inr v, [])))"

definition analyzeWriting :: "env \<Rightarrow> generateContent \<Rightarrow> jsval outcome" where
  "analyzeWriting e generate = callAIWithRetry e (lit ''analyzeWriting'') (jsonAttempt generate)"

definition gradeSpeakingSession :: "env \<Rightarrow> generateContent \<Rightarrow> jsval outcome" where
  "gradeSpeakingSession e generate =
    callAIWithRetry e (lit ''gradeSpeakingSession'') (jsonAttempt generate)"

definition analyzePronunciation :: "env \<Rightarrow> generateContent \<Rightarrow> jsval outcome" where
  "analyzePronunciation e generate =
    callAIWithRetry e (lit ''analyzePronunciation'') (jsonAttempt generate)"

text \<open>
  The operation of \<open>interactWithExaminer\<close>: the examiner's turn is parsed, speech is
  requested for a truthy \<open>result.response\<close>, and the result object is built.
\<close>

definition examinerAttempt ::
  "env \<Rightarrow> generateContent \<Rightarrow> (jsval \<Rightarrow> generateContent) \<Rightarrow> jsstring \<Rightarrow> client
    \<Rightarrow> jsval outcome" where
  "examinerAttempt e generate synth model ai =
    (case generate ai model of
       Inl err \<Rightarrow> (Inl err, [])
     | Inr response \<Rightarrow>
         (let jsonText = cleanJsonString
                (if truthyStr (responseText response) then the (responseText response)
                 else lit ''{}'')
          in case JSON_parse jsonText of
               Inl err \<Rightarrow> (Inl err, [])
             | Inr result \<Rightarrow>
                 (case getProp result (lit ''response'') of
                    Inl err \<Rightarrow> (Inl err, [])
                  | Inr resp \<Rightarrow>
                      (case (if truthy resp then generateSpeech e synth resp
                             else (Inr [], [])) of
                         (Inl err, nested) \<Rightarrow> (Inl err, nested)
                       | (Inr aiAudioBase64, nested) \<Rightarrow>
                           (case getProp result (lit ''transcription'') of
                              Inl err \<Rightarrow> (Inl err, nested)
                            | Inr tr \<Rightarrow>
                                (Inr (JObject
                                   [(lit ''userTranscription'',
                                       if truthy tr then tr else JString []),
                                    (lit ''aiResponse'', resp),
                                    (lit ''aiAudioBase64'', JString aiAudioBase64)]),
                                 nested))))))"

definition interactWithExaminer ::
  "env \<Rightarrow> generateContent \<Rightarrow> (jsval \<Rightarrow> generateContent) \<Rightarrow> jsval outcome" where
  "interactWithExaminer e generate synth =
    callAIWithRetry e (lit ''interactWithExaminer'') (examinerAttempt e generate synth)"

section \<open>Sample sessions\<close>

text \<open>A browser session with a stored key and no stored model preference.\<close>

definition browserEnv :: env where
  "browserEnv =
    \<lparr>window = Some (\<lambda>k. if k = lit ''lingua_api_key'' then Some (lit ''AIza-key'') else None),
     API_KEY = None, GEMINI_API_KEY = None\<rparr>"

text \<open>The same session with \<open>gemini-2.5-flash\<close> selected in the settings.\<close>

definition flashEnv :: env where
  "flashEnv =
    \<lparr>window = Some (\<lambda>k. if k = lit ''lingua_api_key'' then Some (lit ''AIza-key'')
                         else if k = lit ''lingua_selected_model''
                         then Some (lit ''gemini-2.5-flash'') else None),
     API_KEY = None, GEMINI_API_KEY = None\<rparr>"

text \<open>A session without any key.\<close>

definition bareEnv :: env where
  "bareEnv = \<lparr>window = None, API_KEY = None, GEMINI_API_KEY = None\<rparr>"

text \<open>A response that carries only text, and one that carries only inline audio.\<close>

definition textResponse :: "jsstring option \<Rightarrow> response" where
  "textResponse t = \<lparr>candidates = None, responseText = t\<rparr>"

definition audioResponse :: "jsstring \<Rightarrow> response" where
  "audioResponse a =
    \<lparr>candidates = Some [\<lparr>content = Some \<lparr>parts = Some [\<lparr>inlineData = Some \<lparr>data = Some a\<rparr>\<rparr>]\<rparr>\<rparr>],
     responseText = None\<rparr>"

text \<open>
  An operation that fails on \<open>gemini-3-flash-preview\<close> and succeeds on every other model,
  and one that fails on every model.
\<close>

definition flaky :: "jsstring \<Rightarrow> client \<Rightarrow> jsstring outcome" where
  "flaky model ai =
    (if model = lit ''gemini-3-flash-preview'' then (Inl (Error (lit ''overloaded'')), [])
     else (Inr (lit ''done by '' @ model), []))"

definition failing :: "jsstring \<Rightarrow> client \<Rightarrow> jsstring outcome" where
  "failing model ai = (Inl (Error (lit ''quota exceeded for '' @ model)), [])"

text \<open>
  A speech capability that always fails, and one that answers without audio on
  \<open>gemini-3-flash-preview\<close> and with audio on every other model.
\<close>

definition silent :: "jsval \<Rightarrow> generateContent" where
  "silent txt ai model = Inl (Error (lit ''503 unavailable''))"

definition voiced :: "jsval \<Rightarrow> generateContent" where
  "voiced txt ai model =
    (if model = lit ''gemini-3-flash-preview'' then Inr (textResponse (Some (lit ''no audio'')))
     else Inr (audioResponse (lit ''UklGRg'')))"

text \<open>
  Three text capabilities: one that answers without text, one that answers an interview
  turn, and one whose answer on \<open>gemini-3-flash-preview\<close> is not JSON.
\<close>

definition mute :: generateContent where
  "mute ai model = Inr (textResponse None)"

definition chatty :: generateContent where
  "chatty ai model =
    Inr (textResponse (Some (lit ''{\"transcription\":\"hi\",\"response\":\"Hello\"}'')))"

definition garbled :: generateContent where
  "garbled ai model =
    (if model = lit ''gemini-3-flash-preview'' then Inr (textResponse (Some (lit ''not json'')))
     else Inr (textResponse (Some (lit ''{\"score\":7}''))))"

text \<open>
  A speech capability that gives audio on a dedicated speech model only and rejects the
  request on every other model, as text models do; and a text capability whose answer is
  \<open>null\<close> on \<open>gemini-3-flash-preview\<close>, is not JSON on \<open>gemini-3-pro-preview\<close> and is
  well-formed on every other model.
\<close>

definition picky :: "jsval \<Rightarrow> generateContent" where
  "picky txt ai model =
    (if model = lit ''gemini-2.5-flash-preview-tts'' then Inr (audioResponse (lit ''UklGRg''))
     else Inl (Error (lit ''audio output is not supported'')))"

definition stumbling :: generateContent where
  "stumbling ai model =
    (if model = lit ''gemini-3-flash-preview'' then Inr (textResponse (Some (lit ''null'')))
     else if model = lit ''gemini-3-pro-preview''
     then Inr (textResponse (Some (lit ''not json'')))
     else Inr (textResponse (Some (lit ''{\"score\":7}''))))"

section \<open>The candidate chain and the retry loop\<close>

lemma fold_Set_add_distinct:
  "distinct s \<Longrightarrow> distinct (fold (\<lambda>x s. Set_add s x) xs s)"
  by (induction xs arbitrary: s) (auto simp: Set_add_def)

lemma fold_Set_add_hd:
  "s \<noteq> [] \<Longrightarrow> hd (fold (\<lambda>x s. Set_add s x) xs s) = hd s \<and> fold (\<lambda>x s. Set_add s x) xs s \<noteq> []"
  by (induction xs arbitrary: s) (auto simp: Set_add_def)

lemma new_Set_distinct: "distinct (new_Set xs)"
  by (simp add: new_Set_def fold_Set_add_distinct)

lemma new_Set_hd: "hd (new_Set (x # xs)) = x"
  using fold_Set_add_hd [of "[x]" xs] by (simp add: new_Set_def Set_add_def)

lemma new_Set_nonempty: "new_Set (x # xs) \<noteq> []"
  using fold_Set_add_hd [of "[x]" xs] by (simp add: new_Set_def Set_add_def)

lemma supported_ids:
  "list_ex (\<lambda>m. modelId m = s) SUPPORTED_MODELS \<longleftrightarrow> s \<in> modelId ` set SUPPORTED_MODELS"
  by (auto simp: list_ex_iff)

lemma currentModel_cases:
  "currentModel e = (case savedModel e of
       Some m \<Rightarrow> if m \<in> modelId ` set SUPPORTED_MODELS then m else lit ''gemini-3-flash-preview''
     | None \<Rightarrow> lit ''gemini-3-flash-preview'')"
proof (cases "savedModel e")
  case None
  then show ?thesis by (simp add: currentModel_def)
next
  case (Some m)
  then have w: "window e \<noteq> None" by (auto simp: savedModel_def split: option.splits)
  have ne: "m \<in> modelId ` set SUPPORTED_MODELS \<Longrightarrow> m \<noteq> []"
    by (auto simp: SUPPORTED_MODELS_def lit_def)
  show ?thesis using Some w ne by (auto simp: currentModel_def supported_ids)
qed

lemma chain_25:
  "new_Set (lit ''gemini-2.5-flash'' # FALLBACK_ORDER) =
     [lit ''gemini-2.5-flash'', lit ''gemini-3-flash-preview'', lit ''gemini-3-pro-preview'']"
  by (simp add: new_Set_def Set_add_def FALLBACK_ORDER_def lit_def)

lemma tryModels_all_fail:
  "\<forall>m \<in> set ms. isl (fst (operationFn m \<lparr>apiKey = key\<rparr>)) \<Longrightarrow>
   tryModels operationName operationFn key ms lastError =
     (Inl (Error (exhaustedMessage
        (if ms = [] then lastError
         else Some (projl (fst (operationFn (last ms) \<lparr>apiKey = key\<rparr>)))))),
      map (\<lambda>m. Invocation operationName m (snd (operationFn m \<lparr>apiKey = key\<rparr>))) ms)"
proof (induction ms arbitrary: lastError)
  case Nil
  then show ?case by simp
next
  case (Cons m ms)
  obtain r nested where op: "operationFn m \<lparr>apiKey = key\<rparr> = (r, nested)"
    by (cases "operationFn m \<lparr>apiKey = key\<rparr>")
  from Cons.prems op obtain err where r: "r = Inl err" by (cases r) auto
  have rest: "\<forall>m \<in> set ms. isl (fst (operationFn m \<lparr>apiKey = key\<rparr>))"
    using Cons.prems by simp
  show ?case
    using Cons.IH [OF rest, of "Some err"] op r by simp
qed

lemma tryModels_success:
  "n < length ms \<Longrightarrow>
   \<forall>i<n. isl (fst (operationFn (ms ! i) \<lparr>apiKey = key\<rparr>)) \<Longrightarrow>
   fst (operationFn (ms ! n) \<lparr>apiKey = key\<rparr>) = Inr v \<Longrightarrow>
   tryModels operationName operationFn key ms lastError =
     (Inr v,
      map (\<lambda>m. Invocation operationName m (snd (operationFn m \<lparr>apiKey = key\<rparr>)))
        (take (Suc n) ms))"
proof (induction ms arbitrary: n lastError)
  case Nil
  then show ?case by simp
next
  case (Cons m ms)
  obtain r nested where op: "operationFn m \<lparr>apiKey = key\<rparr> = (r, nested)"
    by (cases "operationFn m \<lparr>apiKey = key\<rparr>")
  show ?case
  proof (cases n)
    case 0
    then show ?thesis using Cons.prems op by simp
  next
    case (Suc k)
    have "isl (fst (operationFn ((m # ms) ! 0) \<lparr>apiKey = key\<rparr>))"
      using Cons.prems(2) Suc by blast
    then obtain err where r: "r = Inl err" using op by (cases r) auto
    have k: "k < length ms" using Cons.prems(1) Suc by simp
    have fails: "\<forall>i<k. isl (fst (operationFn (ms ! i) \<lparr>apiKey = key\<rparr>))"
    proof (intro allI impI)
      fix i assume "i < k"
      then have "Suc i < n" using Suc by simp
      then show "isl (fst (operationFn (ms ! i) \<lparr>apiKey = key\<rparr>))"
        using Cons.prems(2) by fastforce
    qed
    have ok: "fst (operationFn (ms ! k) \<lparr>apiKey = key\<rparr>) = Inr v"
      using Cons.prems(3) Suc by simp
    show ?thesis
      using Cons.IH [OF k fails ok, of "Some err"] op r Suc by simp
  qed
qed

lemma tryModels_trace_prefix:
  "\<exists>k. map invModel (snd (tryModels operationName operationFn key ms lastError)) = take k ms"
proof (induction ms arbitrary: lastError)
  case Nil
  then show ?case by simp
next
  case (Cons m ms)
  obtain r nested where op: "operationFn m \<lparr>apiKey = key\<rparr> = (r, nested)"
    by (cases "operationFn m \<lparr>apiKey = key\<rparr>")
  show ?case
  proof (cases r)
    case (Inr res)
    then have "map invModel (snd (tryModels operationName operationFn key (m # ms) lastError))
        = take (Suc 0) (m # ms)"
      using op by simp
    then show ?thesis by blast
  next
    case (Inl err)
    from Cons.IH [of "Some err"] obtain k where
      k: "map invModel (snd (tryModels operationName operationFn key ms (Some err))) = take k ms"
      by blast
    have "map invModel (snd (tryModels operationName operationFn key (m # ms) lastError))
        = take (Suc k) (m # ms)"
      using op Inl k by (auto split: prod.splits)
    then show ?thesis by blast
  qed
qed

lemma str_includes_mid: "str_includes (p @ n @ q) n"
proof -
  have "length p \<in> set [0 ..< Suc (length (p @ n @ q))]" by simp
  moreover have "take (length n) (drop (length p) (p @ n @ q)) = n" by simp
  ultimately show ?thesis unfolding str_includes_def list_ex_iff by blast
qed

subsection \<open>The sample sessions, evaluated\<close>

lemma getApiKey_browserEnv: "getApiKey browserEnv = lit ''AIza-key''"
  by (simp add: getApiKey_def browserEnv_def lit_def)

lemma getApiKey_flashEnv: "getApiKey flashEnv = lit ''AIza-key''"
  by (simp add: getApiKey_def flashEnv_def lit_def)

lemma getApiKey_bareEnv: "getApiKey bareEnv = []"
  by (simp add: getApiKey_def bareEnv_def)

lemma savedModel_browserEnv: "savedModel browserEnv = None"
  by (simp add: savedModel_def browserEnv_def lit_def)

lemma savedModel_flashEnv: "savedModel flashEnv = Some (lit ''gemini-2.5-flash'')"
  by (simp add: savedModel_def flashEnv_def lit_def)

lemma uniqueFallbacks_browserEnv:
  "uniqueFallbacks browserEnv =
    [lit ''gemini-3-flash-preview'', lit ''gemini-3-pro-preview'', lit ''gemini-2.5-flash'']"
  by (simp add: uniqueFallbacks_def currentModel_cases savedModel_browserEnv new_Set_def
      Set_add_def FALLBACK_ORDER_def lit_def)

lemma callAIWithRetry_no_key:
  "getApiKey e = [] \<Longrightarrow>
   callAIWithRetry e operationName operationFn = (Inl (Error missingKeyMessage), [])"
  by (simp add: callAIWithRetry_def)

lemma callAIWithRetry_all_fail:
  "getApiKey e \<noteq> [] \<Longrightarrow>
   \<forall>m \<in> set (uniqueFallbacks e). isl (fst (operationFn m \<lparr>apiKey = getApiKey e\<rparr>)) \<Longrightarrow>
   isl (fst (callAIWithRetry e operationName operationFn))"
  using tryModels_all_fail [where ms = "uniqueFallbacks e" and operationFn = operationFn
      and key = "getApiKey e" and operationName = operationName and lastError = None]
  by (simp add: callAIWithRetry_def Let_def)

lemma callAIWithRetry_success:
  "getApiKey e \<noteq> [] \<Longrightarrow> n < length (uniqueFallbacks e) \<Longrightarrow>
   \<forall>i<n. isl (fst (operationFn (uniqueFallbacks e ! i) \<lparr>apiKey = getApiKey e\<rparr>)) \<Longrightarrow>
   fst (operationFn (uniqueFallbacks e ! n) \<lparr>apiKey = getApiKey e\<rparr>) = Inr v \<Longrightarrow>
   callAIWithRetry e operationName operationFn =
     (Inr v, map (\<lambda>m. Invocation operationName m (snd (operationFn m \<lparr>apiKey = getApiKey e\<rparr>)))
               (take (Suc n) (uniqueFallbacks e)))"
  using tryModels_success [where ms = "uniqueFallbacks e" and operationFn = operationFn
      and key = "getApiKey e" and n = n and v = v and operationName = operationName
      and lastError = None]
  by (simp add: callAIWithRetry_def Let_def)

lemma generateSpeech_fst:
  "fst (generateSpeech e synth txt) =
    (case fst (callAIWithRetry e (lit ''generateSpeech'') (speechAttempt (synth txt))) of
       Inl err \<Rightarrow> Inr [] | Inr audio \<Rightarrow> Inr audio)"
  by (simp add: generateSpeech_def split: prod.splits sum.splits)

lemma generateSpeech_snd:
  "snd (generateSpeech e synth txt) =
     snd (callAIWithRetry e (lit ''generateSpeech'') (speechAttempt (synth txt)))"
  by (simp add: generateSpeech_def split: prod.splits sum.splits)

lemma generateSpeech_total: "\<exists>s. fst (generateSpeech e synth txt) = Inr s"
  by (simp add: generateSpeech_fst split: sum.splits)

lemma base64Audio_audioResponse: "base64Audio (audioResponse a) = Some a"
  by (simp add: base64Audio_def audioResponse_def)

lemma base64Audio_textResponse: "base64Audio (textResponse t) = None"
  by (simp add: base64Audio_def textResponse_def)

section \<open>Fences, trimming and inclusion\<close>

lemma str_includes_iff: "str_includes s n \<longleftrightarrow> (\<exists>p q. s = p @ n @ q)"
proof
  assume "str_includes s n"
  then obtain i where t: "take (length n) (drop i s) = n"
    unfolding str_includes_def list_ex_iff by auto
  have "drop i s = take (length n) (drop i s) @ drop (length n) (drop i s)"
    by (simp only: append_take_drop_id)
  then have "drop i s = n @ drop (length n) (drop i s)" using t by simp
  then have "s = take i s @ n @ drop (length n) (drop i s)"
    by (metis append_take_drop_id)
  then show "\<exists>p q. s = p @ n @ q" by blast
next
  assume "\<exists>p q. s = p @ n @ q"
  then obtain p q where "s = p @ n @ q" by blast
  then show "str_includes s n" by (simp add: str_includes_mid)
qed

lemma startsWith_iff: "startsWith s p \<longleftrightarrow> (\<exists>q. s = p @ q)"
proof
  assume "startsWith s p"
  then have "s = p @ drop (length p) s"
    unfolding startsWith_def by (metis append_take_drop_id)
  then show "\<exists>q. s = p @ q" by blast
next
  assume "\<exists>q. s = p @ q"
  then show "startsWith s p" unfolding startsWith_def by auto
qed

lemma str_includes_Cons:
  "n \<noteq> [] \<Longrightarrow> str_includes (x # xs) n \<longleftrightarrow> startsWith (x # xs) n \<or> str_includes xs n"
proof
  assume ne: "n \<noteq> []" and "str_includes (x # xs) n"
  then obtain p q where pq: "x # xs = p @ n @ q" unfolding str_includes_iff by blast
  show "startsWith (x # xs) n \<or> str_includes xs n"
  proof (cases p)
    case Nil
    then show ?thesis using pq unfolding startsWith_iff by auto
  next
    case (Cons y p')
    then have "xs = p' @ n @ q" using pq by simp
    then show ?thesis unfolding str_includes_iff by blast
  qed
next
  assume "startsWith (x # xs) n \<or> str_includes xs n"
  then show "str_includes (x # xs) n"
  proof
    assume "startsWith (x # xs) n"
    then obtain q where "x # xs = [] @ n @ q" unfolding startsWith_iff by auto
    then show ?thesis unfolding str_includes_iff by blast
  next
    assume "str_includes xs n"
    then obtain p q where "xs = p @ n @ q" unfolding str_includes_iff by blast
    then have "x # xs = (x # p) @ n @ q" by simp
    then show ?thesis unfolding str_includes_iff by blast
  qed
qed

lemma str_includes_Nil: "n \<noteq> [] \<Longrightarrow> \<not> str_includes [] n"
  unfolding str_includes_iff by simp

lemma fence_lit: "lit ''```'' = [0x60, 0x60, 0x60]"
  by (simp add: lit_def)

lemma fenceJson_lit: "lit ''```json'' = [0x60, 0x60, 0x60, 0x6A, 0x73, 0x6F, 0x6E]"
  by (simp add: lit_def)

lemma startsWith_fence:
  "startsWith s (lit ''```'') \<longleftrightarrow> (\<exists>r. s = 0x60 # 0x60 # 0x60 # r)"
  unfolding startsWith_iff fence_lit by simp

lemma startsWith_fenceJson:
  "startsWith s (lit ''```json'') \<longleftrightarrow> (\<exists>r. s = 0x60 # 0x60 # 0x60 # 0x6A # 0x73 # 0x6F # 0x6E # r)"
  unfolding startsWith_iff fenceJson_lit by simp

lemma fenceJson_imp_fence: "startsWith s (lit ''```json'') \<Longrightarrow> startsWith s (lit ''```'')"
  unfolding startsWith_fence startsWith_fenceJson by auto

lemma stripFences_keep:
  "\<not> startsWith (c # cs) (lit ''```'') \<Longrightarrow> stripFences (c # cs) = c # stripFences cs"
  using fenceJson_imp_fence [of "c # cs"] by auto

lemma stripFences_bare:
  "startsWith (c # cs) (lit ''```'') \<Longrightarrow> \<not> startsWith (c # cs) (lit ''```json'') \<Longrightarrow>
   stripFences (c # cs) = stripFences (drop 2 cs)"
  by simp

lemma stripFences_json:
  "startsWith (c # cs) (lit ''```json'') \<Longrightarrow>
   stripFences (c # cs) =
     stripFences (if startsWith (drop 6 cs) [0x0A] then drop 7 cs else drop 6 cs)"
  by simp

lemma stripFences_head:
  "stripFences s = 0x60 # r \<Longrightarrow> \<exists>t. s = 0x60 # t"
proof (cases s)
  case Nil
  then show "stripFences s = 0x60 # r \<Longrightarrow> ?thesis" by simp
next
  case (Cons c cs)
  assume a: "stripFences s = 0x60 # r"
  show ?thesis
  proof (cases "startsWith (c # cs) (lit ''```'')")
    case True
    then show ?thesis using Cons unfolding startsWith_fence by auto
  next
    case False
    then show ?thesis using a Cons stripFences_keep [OF False] by simp
  qed
qed

lemma stripFences_no_fence_prefix:
  "\<not> startsWith (stripFences s) (lit ''```'')"
proof (induction s rule: stripFences.induct)
  case 1
  show ?case by (simp add: startsWith_fence)
next
  case (2 c cs)
  show ?case
  proof (cases "startsWith (c # cs) (lit ''```json'')")
    case True
    then show ?thesis
      using "2.IH"(1,2) stripFences_json [OF True] by (auto split: if_splits)
  next
    case nj: False
    show ?thesis
    proof (cases "startsWith (c # cs) (lit ''```'')")
      case True
      then show ?thesis using "2.IH"(3) nj stripFences_bare [OF True nj] by simp
    next
      case False
      have keep: "stripFences (c # cs) = c # stripFences cs" by (rule stripFences_keep [OF False])
      show ?thesis
      proof
        assume "startsWith (stripFences (c # cs)) (lit ''```'')"
        then obtain r where r: "c # stripFences cs = 0x60 # 0x60 # 0x60 # r"
          unfolding keep startsWith_fence by blast
        then have c: "c = 0x60" and s1: "stripFences cs = 0x60 # 0x60 # r" by auto
        from stripFences_head [OF s1] obtain t where t: "cs = 0x60 # t" by blast
        have nf: "\<not> startsWith cs (lit ''```'')"
          using False c t unfolding startsWith_fence by auto
        have "stripFences cs = 0x60 # stripFences t"
          using stripFences_keep [of "0x60" t] nf t by simp
        then have "stripFences t = 0x60 # r" using s1 by simp
        from stripFences_head [OF this] obtain u where "t = 0x60 # u" by blast
        then show False using False c t unfolding startsWith_fence by simp
      qed
    qed
  qed
qed

lemma stripFences_no_fence: "\<not> str_includes (stripFences s) (lit ''```'')"
proof (induction s rule: stripFences.induct)
  case 1
  show ?case by (simp add: str_includes_Nil fence_lit)
next
  case (2 c cs)
  show ?case
  proof (cases "startsWith (c # cs) (lit ''```json'')")
    case True
    then show ?thesis
      using "2.IH"(1,2) stripFences_json [OF True] by (auto split: if_splits)
  next
    case nj: False
    show ?thesis
    proof (cases "startsWith (c # cs) (lit ''```'')")
      case True
      then show ?thesis using "2.IH"(3) nj stripFences_bare [OF True nj] by simp
    next
      case False
      have keep: "stripFences (c # cs) = c # stripFences cs" by (rule stripFences_keep [OF False])
      have ih: "\<not> str_includes (stripFences cs) (lit ''```'')"
        using "2.IH"(4) nj False by simp
      have "\<not> startsWith (c # stripFences cs) (lit ''```'')"
        using stripFences_no_fence_prefix [of "c # cs"] keep by simp
      then show ?thesis
        unfolding keep using ih str_includes_Cons [of "lit ''```''" c "stripFences cs"]
        by (simp add: fence_lit)
    qed
  qed
qed

lemma stripFences_plain_prefix:
  "0x60 \<notin> set a \<Longrightarrow> stripFences (a @ s) = a @ stripFences s"
proof (induction a)
  case Nil
  show ?case by simp
next
  case (Cons x a)
  then have x: "x \<noteq> 0x60" by auto
  have "\<not> startsWith (x # a @ s) (lit ''```'')" using x unfolding startsWith_fence by auto
  from stripFences_keep [OF this] show ?case using Cons by simp
qed

lemma stripFences_at_json:
  "stripFences (lit ''```json'' @ b) =
     stripFences (if startsWith b [0x0A] then drop 1 b else b)"
proof -
  have st: "startsWith (0x60 # ([0x60, 0x60, 0x6A, 0x73, 0x6F, 0x6E] @ b)) (lit ''```json'')"
    unfolding startsWith_fenceJson by simp
  show ?thesis
    using stripFences_json [OF st] by (simp add: fenceJson_lit)
qed

lemma stripFences_at_fence:
  "\<not> startsWith b (lit ''json'') \<Longrightarrow> stripFences (lit ''```'' @ b) = stripFences b"
proof -
  assume nb: "\<not> startsWith b (lit ''json'')"
  have j: "lit ''json'' = [0x6A, 0x73, 0x6F, 0x6E]" by (simp add: lit_def)
  have st: "startsWith (0x60 # ([0x60, 0x60] @ b)) (lit ''```'')"
    unfolding startsWith_fence by simp
  have "\<forall>q. b \<noteq> [0x6A, 0x73, 0x6F, 0x6E] @ q"
    using nb unfolding startsWith_iff j by blast
  then have nj: "\<not> startsWith (0x60 # ([0x60, 0x60] @ b)) (lit ''```json'')"
    unfolding startsWith_fenceJson by auto
  show ?thesis
    using stripFences_bare [OF st nj] by (simp add: fence_lit)
qed

lemma trim_ends:
  "trim s = [] \<or> (\<not> isWhiteSpace (hd (trim s)) \<and> \<not> isWhiteSpace (last (trim s)))"
proof (cases "trim s = []")
  case True
  then show ?thesis by simp
next
  case False
  let ?t = "dropWhile isWhiteSpace s"
  let ?u = "dropWhile isWhiteSpace (rev ?t)"
  have u: "?u \<noteq> []" using False by (simp add: trim_def)
  have "?u = []" if a: "?t = []" unfolding a by simp
  then have t: "?t \<noteq> []" using u by blast
  have l: "\<not> isWhiteSpace (hd ?u)" using u by (rule hd_dropWhile)
  have "rev ?t = takeWhile isWhiteSpace (rev ?t) @ ?u" by simp
  then have "last (rev ?t) = last ?u" using u by (metis last_appendR)
  then have "last ?u = hd ?t" using t by (simp add: last_rev)
  moreover have "\<not> isWhiteSpace (hd ?t)" using t by (rule hd_dropWhile)
  ultimately have h: "\<not> isWhiteSpace (last ?u)" by simp
  have "hd (trim s) = last ?u" "last (trim s) = hd ?u"
    using u by (simp_all add: trim_def hd_rev last_rev)
  then show ?thesis using l h by simp
qed

lemma trim_decompose:
  "\<exists>l r. s = l @ trim s @ r \<and> list_all isWhiteSpace l \<and> list_all isWhiteSpace r"
proof -
  let ?t = "dropWhile isWhiteSpace s"
  let ?u = "dropWhile isWhiteSpace (rev ?t)"
  let ?l = "takeWhile isWhiteSpace s"
  let ?r = "rev (takeWhile isWhiteSpace (rev ?t))"
  have t: "?t = rev ?u @ ?r"
    by (metis rev_append rev_rev_ident takeWhile_dropWhile_id)
  have "s = ?l @ ?t" by simp
  then have "s = ?l @ trim s @ ?r" using t by (simp add: trim_def)
  moreover have "list_all isWhiteSpace ?l"
    unfolding list_all_iff by (auto dest: set_takeWhileD)
  moreover have "list_all isWhiteSpace ?r"
    unfolding list_all_iff by (auto dest: set_takeWhileD)
  ultimately show ?thesis by blast
qed

lemma trim_no_fence:
  "\<not> str_includes x n \<Longrightarrow> \<not> str_includes (trim x) n"
proof
  assume nx: "\<not> str_includes x n" and "str_includes (trim x) n"
  then obtain p q where pq: "trim x = p @ n @ q" unfolding str_includes_iff by blast
  from trim_decompose [of x] obtain l r where "x = l @ trim x @ r" by blast
  then have "x = (l @ p) @ n @ (q @ r)" using pq by simp
  then have "str_includes x n" unfolding str_includes_iff by blast
  then show False using nx by simp
qed

text \<open>
  The five equations of the scan decide it on every text: a function that satisfies them
  is \<open>stripFences\<close>.
\<close>

lemma startsWith_fenceJson_drop:
  "startsWith (c # cs) (lit ''```json'') \<Longrightarrow> c # cs = lit ''```json'' @ drop 6 cs"
proof -
  assume "startsWith (c # cs) (lit ''```json'')"
  then obtain r where "c # cs = 0x60 # 0x60 # 0x60 # 0x6A # 0x73 # 0x6F # 0x6E # r"
    unfolding startsWith_fenceJson by blast
  then show ?thesis by (auto simp: fenceJson_lit)
qed

lemma startsWith_fence_drop:
  "startsWith (c # cs) (lit ''```'') \<Longrightarrow> c # cs = lit ''```'' @ drop 2 cs"
proof -
  assume "startsWith (c # cs) (lit ''```'')"
  then obtain r where "c # cs = 0x60 # 0x60 # 0x60 # r"
    unfolding startsWith_fence by blast
  then show ?thesis by (auto simp: fence_lit)
qed

lemma not_json_behind_fence:
  "startsWith (c # cs) (lit ''```'') \<Longrightarrow> \<not> startsWith (c # cs) (lit ''```json'') \<Longrightarrow>
   \<not> startsWith (drop 2 cs) (lit ''json'')"
proof -
  assume f: "startsWith (c # cs) (lit ''```'')" and nj: "\<not> startsWith (c # cs) (lit ''```json'')"
  have j: "lit ''json'' = [0x6A, 0x73, 0x6F, 0x6E]" by (simp add: lit_def)
  from f obtain r where r: "c # cs = 0x60 # 0x60 # 0x60 # r" unfolding startsWith_fence by blast
  then have d: "drop 2 cs = r" by auto
  show ?thesis
  proof
    assume "startsWith (drop 2 cs) (lit ''json'')"
    then obtain q where "r = [0x6A, 0x73, 0x6F, 0x6E] @ q" unfolding d startsWith_iff j by blast
    then have "startsWith (c # cs) (lit ''```json'')" using r unfolding startsWith_fenceJson by simp
    then show False using nj by simp
  qed
qed

lemma stripFences_json_nl: "stripFences (lit ''```json'' @ 0x0A # b) = stripFences b"
  using stripFences_at_json [of "0x0A # b"] by (simp add: startsWith_def)

lemma stripFences_json_plain:
  "\<not> startsWith b [0x0A] \<Longrightarrow> stripFences (lit ''```json'' @ b) = stripFences b"
  using stripFences_at_json [of b] by simp

lemma startsWith_nl: "startsWith b [0x0A] \<Longrightarrow> b = 0x0A # drop 1 b"
  unfolding startsWith_iff by auto

lemma stripFences_unique:
  assumes e: "f [] = []"
    and k: "\<And>c cs. \<not> startsWith (c # cs) (lit ''```'') \<Longrightarrow> f (c # cs) = c # f cs"
    and jn: "\<And>b. f (lit ''```json'' @ 0x0A # b) = f b"
    and jp: "\<And>b. \<not> startsWith b [0x0A] \<Longrightarrow> f (lit ''```json'' @ b) = f b"
    and fb: "\<And>b. \<not> startsWith b (lit ''json'') \<Longrightarrow> f (lit ''```'' @ b) = f b"
  shows "f s = stripFences s"
proof (induction s rule: stripFences.induct)
  case 1
  show ?case using e by simp
next
  case (2 c cs)
  show ?case
  proof (cases "startsWith (c # cs) (lit ''```json'')")
    case True
    note shape = startsWith_fenceJson_drop [OF True]
    show ?thesis
    proof (cases "startsWith (drop 6 cs) [0x0A]")
      case nl: True
      have "drop 6 cs = 0x0A # drop 1 (drop 6 cs)" using nl by (rule startsWith_nl)
      then have d: "drop 6 cs = 0x0A # drop 7 cs" by simp
      have "f (c # cs) = f (lit ''```json'' @ 0x0A # drop 7 cs)" using shape d by simp
      also have "\<dots> = f (drop 7 cs)" by (rule jn)
      also have "\<dots> = stripFences (drop 7 cs)" using "2.IH"(1) True nl by simp
      also have "\<dots> = stripFences (c # cs)" using stripFences_json [OF True] nl by simp
      finally show ?thesis .
    next
      case nnl: False
      have "f (c # cs) = f (lit ''```json'' @ drop 6 cs)" using shape by simp
      also have "\<dots> = f (drop 6 cs)" using nnl by (rule jp)
      also have "\<dots> = stripFences (drop 6 cs)" using "2.IH"(2) True nnl by simp
      also have "\<dots> = stripFences (c # cs)" using stripFences_json [OF True] nnl by simp
      finally show ?thesis .
    qed
  next
    case nj: False
    show ?thesis
    proof (cases "startsWith (c # cs) (lit ''```'')")
      case True
      have "f (c # cs) = f (lit ''```'' @ drop 2 cs)"
        using startsWith_fence_drop [OF True] by simp
      also have "\<dots> = f (drop 2 cs)" using not_json_behind_fence [OF True nj] by (rule fb)
      also have "\<dots> = stripFences (drop 2 cs)" using "2.IH"(3) True nj by simp
      also have "\<dots> = stripFences (c # cs)" using stripFences_bare [OF True nj] by simp
      finally show ?thesis .
    next
      case False
      have "f (c # cs) = c # f cs" using False by (rule k)
      also have "\<dots> = c # stripFences cs" using "2.IH"(4) nj False by simp
      also have "\<dots> = stripFences (c # cs)" using stripFences_keep [OF False] by simp
      finally show ?thesis .
    qed
  qed
qed

section \<open>More about the loop\<close>

lemma tryModels_attempted:
  "i < length ms \<Longrightarrow>
   \<forall>j<i. isl (fst (operationFn (ms ! j) \<lparr>apiKey = key\<rparr>)) \<Longrightarrow>
   i < length (snd (tryModels operationName operationFn key ms lastError))
   \<and> take (Suc i) (map invModel (snd (tryModels operationName operationFn key ms lastError)))
       = take (Suc i) ms"
proof (induction ms arbitrary: i lastError)
  case Nil
  then show ?case by simp
next
  case (Cons m ms)
  obtain r nested where op: "operationFn m \<lparr>apiKey = key\<rparr> = (r, nested)"
    by (cases "operationFn m \<lparr>apiKey = key\<rparr>")
  show ?case
  proof (cases i)
    case 0
    then show ?thesis using op by (cases r) (auto split: prod.splits)
  next
    case (Suc k)
    have "isl (fst (operationFn ((m # ms) ! 0) \<lparr>apiKey = key\<rparr>))"
      using Cons.prems(2) Suc by blast
    then obtain err where r: "r = Inl err" using op by (cases r) auto
    have k: "k < length ms" using Cons.prems(1) Suc by simp
    have fails: "\<forall>j<k. isl (fst (operationFn (ms ! j) \<lparr>apiKey = key\<rparr>))"
    proof (intro allI impI)
      fix j assume "j < k"
      then have "Suc j < i" using Suc by simp
      then show "isl (fst (operationFn (ms ! j) \<lparr>apiKey = key\<rparr>))"
        using Cons.prems(2) by fastforce
    qed
    show ?thesis
      using Cons.IH [OF k fails, of "Some err"] op r Suc by (auto split: prod.splits)
  qed
qed

lemma tryModels_result_shape:
  "(\<exists>v. fst (tryModels operationName operationFn key ms lastError) = Inr v)
   \<or> (\<exists>msg. fst (tryModels operationName operationFn key ms lastError) = Inl (Error msg))"
proof (induction ms arbitrary: lastError)
  case Nil
  then show ?case by simp
next
  case (Cons m ms)
  obtain r nested where op: "operationFn m \<lparr>apiKey = key\<rparr> = (r, nested)"
    by (cases "operationFn m \<lparr>apiKey = key\<rparr>")
  show ?case
  proof (cases r)
    case (Inr v)
    then show ?thesis using op by simp
  next
    case (Inl err)
    then show ?thesis using Cons.IH [of "Some err"] op by (auto split: prod.splits)
  qed
qed

lemma tryModels_result_from:
  "fst (tryModels operationName operationFn key ms lastError) = Inr v \<Longrightarrow>
   \<exists>m \<in> set ms. fst (operationFn m \<lparr>apiKey = key\<rparr>) = Inr v"
proof (induction ms arbitrary: lastError)
  case Nil
  then show ?case by simp
next
  case (Cons m ms)
  obtain r nested where op: "operationFn m \<lparr>apiKey = key\<rparr> = (r, nested)"
    by (cases "operationFn m \<lparr>apiKey = key\<rparr>")
  show ?case
  proof (cases r)
    case (Inr w)
    then show ?thesis using op Cons.prems by simp
  next
    case (Inl err)
    then have "fst (tryModels operationName operationFn key ms (Some err)) = Inr v"
      using op Cons.prems by (auto split: prod.splits)
    from Cons.IH [OF this] show ?thesis by auto
  qed
qed

lemma tryModels_trace_members:
  "call \<in> set (snd (tryModels operationName operationFn key ms lastError)) \<Longrightarrow>
   \<exists>m. call = Invocation operationName m (snd (operationFn m \<lparr>apiKey = key\<rparr>))
      \<and> (isl (fst (operationFn m \<lparr>apiKey = key\<rparr>))
          \<or> fst (tryModels operationName operationFn key ms lastError)
              = fst (operationFn m \<lparr>apiKey = key\<rparr>))"
proof (induction ms arbitrary: lastError)
  case Nil
  then show ?case by simp
next
  case (Cons m ms)
  obtain r nested where op: "operationFn m \<lparr>apiKey = key\<rparr> = (r, nested)"
    by (cases "operationFn m \<lparr>apiKey = key\<rparr>")
  show ?case
  proof (cases r)
    case (Inr w)
    then have "call = Invocation operationName m nested" using op Cons.prems by simp
    then show ?thesis using op Inr by auto
  next
    case (Inl err)
    obtain r' tr' where rest: "tryModels operationName operationFn key ms (Some err) = (r', tr')"
      by (cases "tryModels operationName operationFn key ms (Some err)")
    have whole: "tryModels operationName operationFn key (m # ms) lastError
        = (r', Invocation operationName m nested # tr')"
      using op Inl rest by simp
    from Cons.prems whole have "call = Invocation operationName m nested \<or> call \<in> set tr'"
      by simp
    then show ?thesis
    proof
      assume "call = Invocation operationName m nested"
      then show ?thesis using op Inl by auto
    next
      assume "call \<in> set tr'"
      then have "call \<in> set (snd (tryModels operationName operationFn key ms (Some err)))"
        using rest by simp
      from Cons.IH [OF this] show ?thesis using whole rest by simp
    qed
  qed
qed

lemma tryModels_projection:
  assumes "\<And>m. map_sum id f (fst (operationFn m \<lparr>apiKey = key\<rparr>))
              = map_sum id f (fst (operationFn' m \<lparr>apiKey = key\<rparr>))"
  shows "map_sum id f (fst (tryModels operationName operationFn key ms lastError))
           = map_sum id f (fst (tryModels operationName operationFn' key ms lastError))
       \<and> map invModel (snd (tryModels operationName operationFn key ms lastError))
           = map invModel (snd (tryModels operationName operationFn' key ms lastError))"
proof (induction ms arbitrary: lastError)
  case Nil
  then show ?case by simp
next
  case (Cons m ms)
  obtain r nested where op: "operationFn m \<lparr>apiKey = key\<rparr> = (r, nested)"
    by (cases "operationFn m \<lparr>apiKey = key\<rparr>")
  obtain r' nested' where op': "operationFn' m \<lparr>apiKey = key\<rparr> = (r', nested')"
    by (cases "operationFn' m \<lparr>apiKey = key\<rparr>")
  have same: "map_sum id f r = map_sum id f r'" using assms [of m] op op' by simp
  show ?case
  proof (cases r)
    case (Inr v)
    then obtain v' where "r' = Inr v'" "f v = f v'" using same by (cases r') auto
    then show ?thesis using op op' Inr by simp
  next
    case (Inl err)
    then have "r' = Inl err" using same by (cases r') auto
    then show ?thesis using op op' Inl Cons.IH [of "Some err"] by (auto split: prod.splits)
  qed
qed

lemma generateSpeech_all_fail:
  "\<forall>m \<in> set (uniqueFallbacks e).
      isl (fst (speechAttempt (synth txt) m \<lparr>apiKey = getApiKey e\<rparr>)) \<Longrightarrow>
   fst (generateSpeech e synth txt) = Inr []"
proof -
  assume fails: "\<forall>m \<in> set (uniqueFallbacks e).
      isl (fst (speechAttempt (synth txt) m \<lparr>apiKey = getApiKey e\<rparr>))"
  have "isl (fst (callAIWithRetry e (lit ''generateSpeech'') (speechAttempt (synth txt))))"
  proof (cases "getApiKey e = []")
    case True
    then show ?thesis by (simp add: callAIWithRetry_no_key)
  next
    case False
    then show ?thesis using fails by (rule callAIWithRetry_all_fail)
  qed
  then show ?thesis by (auto simp: generateSpeech_fst split: sum.splits)
qed

lemma callAIWithRetry_attempted:
  "getApiKey e \<noteq> [] \<Longrightarrow> i < length (uniqueFallbacks e) \<Longrightarrow>
   \<forall>j<i. isl (fst (operationFn (uniqueFallbacks e ! j) \<lparr>apiKey = getApiKey e\<rparr>)) \<Longrightarrow>
   i < length (snd (callAIWithRetry e operationName operationFn))
   \<and> take (Suc i) (map invModel (snd (callAIWithRetry e operationName operationFn)))
       = take (Suc i) (uniqueFallbacks e)"
  using tryModels_attempted [where ms = "uniqueFallbacks e" and operationFn = operationFn
      and key = "getApiKey e" and i = i and operationName = operationName
      and lastError = None]
  by (simp add: callAIWithRetry_def Let_def)

lemma callAIWithRetry_result_shape:
  "(\<exists>v. fst (callAIWithRetry e operationName operationFn) = Inr v)
   \<or> (\<exists>msg. fst (callAIWithRetry e operationName operationFn) = Inl (Error msg))"
  using tryModels_result_shape [of operationName operationFn "getApiKey e"
      "uniqueFallbacks e" None]
  by (simp add: callAIWithRetry_def Let_def)

lemma callAIWithRetry_falls_back:
  assumes key: "getApiKey e \<noteq> []" and nxt: "Suc i < length (uniqueFallbacks e)"
    and fails: "\<forall>j<Suc i. isl (fst (operationFn (uniqueFallbacks e ! j)
        \<lparr>apiKey = getApiKey e\<rparr>))"
  shows "Suc i < length (snd (callAIWithRetry e operationName operationFn))
    \<and> take (Suc (Suc i)) (map invModel (snd (callAIWithRetry e operationName operationFn)))
        = take (Suc (Suc i)) (uniqueFallbacks e)
    \<and> fst (callAIWithRetry e operationName operationFn) \<noteq> Inl (SyntaxError msg)"
proof -
  have "fst (callAIWithRetry e operationName operationFn) \<noteq> Inl (SyntaxError msg)"
    using callAIWithRetry_result_shape [of e operationName operationFn] by auto
  then show ?thesis
    using callAIWithRetry_attempted [where operationFn = operationFn and e = e
        and i = "Suc i" and operationName = operationName, OF key nxt fails]
    by simp
qed

section \<open>The attempts of the task callers\<close>

lemma JSON_parse_error: "JSON_parse s = Inl err \<Longrightarrow> err = SyntaxError jsonSyntaxMessage"
  by (auto simp: JSON_parse_def split: option.splits)

lemma JSON_parse_empty_object: "JSON_parse (cleanJsonString (lit ''{}'')) = Inr (JObject [])"
  by code_simp

lemma getProp_isl: "isl (getProp v k) \<longleftrightarrow> v = JNull \<or> v = JUndefined"
  by (cases v) (auto split: option.splits)

lemma getProp_both:
  "getProp v k = Inr x \<Longrightarrow> \<exists>y. getProp v k' = Inr y"
proof -
  assume "getProp v k = Inr x"
  then have "\<not> isl (getProp v k)" by simp
  then have "\<not> isl (getProp v k')" unfolding getProp_isl .
  then show ?thesis by (cases "getProp v k'") auto
qed

lemma keys_distinct:
  "lit ''userTranscription'' \<noteq> lit ''aiResponse''"
  "lit ''userTranscription'' \<noteq> lit ''aiAudioBase64''"
  "lit ''aiResponse'' \<noteq> lit ''aiAudioBase64''"
  "lit ''aiResponse'' \<noteq> lit ''userTranscription''"
  "lit ''aiAudioBase64'' \<noteq> lit ''userTranscription''"
  "lit ''aiAudioBase64'' \<noteq> lit ''aiResponse''"
  by (simp_all add: lit_def)

lemma jsonAttempt_remote_fails:
  "generate ai model = Inl err \<Longrightarrow> jsonAttempt generate model ai = (Inl err, [])"
  by (simp add: jsonAttempt_def)

lemma jsonAttempt_parse_fails:
  "generate ai model = Inr response \<Longrightarrow>
   JSON_parse (cleanJsonString
     (if truthyStr (responseText response) then the (responseText response) else lit ''{}''))
     = Inl perr \<Longrightarrow>
   jsonAttempt generate model ai = (Inl perr, [])"
  by (simp add: jsonAttempt_def Let_def)

lemma jsonAttempt_parsed:
  "generate ai model = Inr response \<Longrightarrow>
   JSON_parse (cleanJsonString
     (if truthyStr (responseText response) then the (responseText response) else lit ''{}''))
     = Inr v \<Longrightarrow>
   jsonAttempt generate model ai = (Inr v, [])"
  by (simp add: jsonAttempt_def Let_def)

lemma examinerAttempt_remote_fails:
  "generate ai model = Inl err \<Longrightarrow> examinerAttempt e generate synth model ai = (Inl err, [])"
  by (simp add: examinerAttempt_def)

lemma examinerAttempt_parse_fails:
  "generate ai model = Inr response \<Longrightarrow>
   JSON_parse (cleanJsonString
     (if truthyStr (responseText response) then the (responseText response) else lit ''{}''))
     = Inl perr \<Longrightarrow>
   examinerAttempt e generate synth model ai = (Inl perr, [])"
  by (simp add: examinerAttempt_def Let_def)

lemma examinerAttempt_null:
  "generate ai model = Inr response \<Longrightarrow>
   JSON_parse (cleanJsonString
     (if truthyStr (responseText response) then the (responseText response) else lit ''{}''))
     = Inr result \<Longrightarrow>
   getProp result (lit ''response'') = Inl err \<Longrightarrow>
   examinerAttempt e generate synth model ai = (Inl err, [])"
  by (simp add: examinerAttempt_def Let_def)

text \<open>An attempt whose turn parsed to a value with readable properties succeeds.\<close>

lemma examinerAttempt_parsed:
  assumes "generate ai model = Inr response"
    and "JSON_parse (cleanJsonString
      (if truthyStr (responseText response) then the (responseText response) else lit ''{}''))
      = Inr result"
    and "getProp result (lit ''response'') = Inr resp"
  shows "\<exists>tr audio.
    getProp result (lit ''transcription'') = Inr tr
    \<and> fst (if truthy resp then generateSpeech e synth resp else (Inr [], [])) = Inr audio
    \<and> examinerAttempt e generate synth model ai =
       (Inr (JObject [(lit ''userTranscription'', if truthy tr then tr else JString []),
                      (lit ''aiResponse'', resp),
                      (lit ''aiAudioBase64'', JString audio)]),
        if truthy resp then snd (generateSpeech e synth resp) else [])"
proof -
  from getProp_both [OF assms(3)] obtain tr where
    tr: "getProp result (lit ''transcription'') = Inr tr" by blast
  show ?thesis
  proof (cases "truthy resp")
    case True
    from generateSpeech_total [of e synth resp] obtain audio where
      a: "fst (generateSpeech e synth resp) = Inr audio" by blast
    obtain nested where g: "generateSpeech e synth resp = (Inr audio, nested)"
      using a by (cases "generateSpeech e synth resp") auto
    show ?thesis
      using assms tr True g by (simp add: examinerAttempt_def Let_def)
  next
    case False
    then show ?thesis
      using assms tr by (simp add: examinerAttempt_def Let_def)
  qed
qed

lemma examinerAttempt_cases:
  "(\<exists>err. examinerAttempt e generate synth model ai = (Inl err, [])
          \<and> (\<forall>synth'. examinerAttempt e generate synth' model ai = (Inl err, [])))
   \<or> (\<exists>tr resp audio.
         fst (if truthy resp then generateSpeech e synth resp else (Inr [], [])) = Inr audio
         \<and> examinerAttempt e generate synth model ai =
             (Inr (JObject [(lit ''userTranscription'', tr), (lit ''aiResponse'', resp),
                            (lit ''aiAudioBase64'', JString audio)]),
              if truthy resp then snd (generateSpeech e synth resp) else [])
         \<and> (\<forall>synth'. \<exists>audio'. fst (examinerAttempt e generate synth' model ai) =
               Inr (JObject [(lit ''userTranscription'', tr), (lit ''aiResponse'', resp),
                             (lit ''aiAudioBase64'', JString audio')])))"
proof (cases "generate ai model")
  case (Inl err)
  then show ?thesis by (simp add: examinerAttempt_remote_fails)
next
  case (Inr response)
  let ?p = "JSON_parse (cleanJsonString
      (if truthyStr (responseText response) then the (responseText response) else lit ''{}''))"
  show ?thesis
  proof (cases ?p)
    case (Inl perr)
    then show ?thesis using Inr by (simp add: examinerAttempt_parse_fails)
  next
    case parsed: (Inr result)
    show ?thesis
    proof (cases "getProp result (lit ''response'')")
      case (Inl err)
      then show ?thesis using Inr parsed by (simp add: examinerAttempt_null)
    next
      case got: (Inr resp)
      from examinerAttempt_parsed [where generate = generate and ai = ai and model = model
          and e = e and synth = synth, OF Inr parsed got] obtain tr audio where
        tr: "getProp result (lit ''transcription'') = Inr tr"
        and a: "fst (if truthy resp then generateSpeech e synth resp else (Inr [], []))
            = Inr audio"
        and run: "examinerAttempt e generate synth model ai =
          (Inr (JObject [(lit ''userTranscription'', if truthy tr then tr else JString []),
                      (lit ''aiResponse'', resp),
                      (lit ''aiAudioBase64'', JString audio)]),
           if truthy resp then snd (generateSpeech e synth resp) else [])"
        by blast
      have other: "\<exists>audio'. fst (examinerAttempt e generate synth' model ai) =
          Inr (JObject [(lit ''userTranscription'', if truthy tr then tr else JString []),
                      (lit ''aiResponse'', resp),
                      (lit ''aiAudioBase64'', JString audio')])" for synth'
        using examinerAttempt_parsed [where generate = generate and ai = ai and model = model
            and e = e and synth = synth', OF Inr parsed got] tr by auto
      show ?thesis using a run other by blast
    qed
  qed
qed

lemma parse_not_json:
  "JSON_parse (cleanJsonString (lit ''not json'')) = Inl (SyntaxError jsonSyntaxMessage)"
  by code_simp

lemma parse_chatty:
  "JSON_parse (cleanJsonString (lit ''{\"transcription\":\"hi\",\"response\":\"Hello\"}''))
    = Inr (JObject [(lit ''transcription'', JString (lit ''hi'')),
                    (lit ''response'', JString (lit ''Hello''))])"
  by code_simp

lemma jsonAttempt_empty_text:
  assumes "generate ai model = Inr response" and "\<not> truthyStr (responseText response)"
  shows "jsonAttempt generate model ai = (Inr (JObject []), [])"
  using assms JSON_parse_empty_object
    jsonAttempt_parsed [of generate ai model response "JObject []"]
  by simp

lemma examinerAttempt_empty_text:
  assumes "generate ai model = Inr response" and "\<not> truthyStr (responseText response)"
  shows "examinerAttempt e generate synth model ai =
    (Inr (JObject [(lit ''userTranscription'', JString []), (lit ''aiResponse'', JUndefined),
                   (lit ''aiAudioBase64'', JString [])]), [])"
  using assms JSON_parse_empty_object by (simp add: examinerAttempt_def Let_def)

lemma callAIWithRetry_first:
  assumes key: "getApiKey e \<noteq> []"
    and ok: "operationFn (hd (uniqueFallbacks e)) \<lparr>apiKey = getApiKey e\<rparr> = (Inr v, nested)"
  shows "callAIWithRetry e operationName operationFn =
    (Inr v, [Invocation operationName (hd (uniqueFallbacks e)) nested])"
proof -
  have ne: "uniqueFallbacks e \<noteq> []" by (simp add: uniqueFallbacks_def new_Set_nonempty)
  then obtain m ms where ms: "uniqueFallbacks e = m # ms" by (cases "uniqueFallbacks e") auto
  show ?thesis using key ok ms by (simp add: callAIWithRetry_def Let_def)
qed

lemma hd_browserEnv: "hd (uniqueFallbacks browserEnv) = lit ''gemini-3-flash-preview''"
  by (simp add: uniqueFallbacks_browserEnv)

lemma result_fields:
  "getProp (JObject [(lit ''userTranscription'', tr), (lit ''aiResponse'', resp),
                     (lit ''aiAudioBase64'', audio)]) (lit ''userTranscription'') = Inr tr"
  "getProp (JObject [(lit ''userTranscription'', tr), (lit ''aiResponse'', resp),
                     (lit ''aiAudioBase64'', audio)]) (lit ''aiResponse'') = Inr resp"
  "getProp (JObject [(lit ''userTranscription'', tr), (lit ''aiResponse'', resp),
                     (lit ''aiAudioBase64'', audio)]) (lit ''aiAudioBase64'') = Inr audio"
  using keys_distinct by simp_all

lemma examinerAttempt_projection:
  "map_sum id (\<lambda>v. (getProp v (lit ''userTranscription''), getProp v (lit ''aiResponse'')))
     (fst (examinerAttempt e generate synth model ai))
   = map_sum id (\<lambda>v. (getProp v (lit ''userTranscription''), getProp v (lit ''aiResponse'')))
     (fst (examinerAttempt e generate synth' model ai))"
  using examinerAttempt_cases [of e generate synth model ai]
proof (elim disjE exE conjE)
  fix err
  assume "examinerAttempt e generate synth model ai = (Inl err, [])"
    and "\<forall>s'. examinerAttempt e generate s' model ai = (Inl err, [])"
  then show ?thesis by simp
next
  fix tr resp audio
  assume run: "examinerAttempt e generate synth model ai =
      (Inr (JObject [(lit ''userTranscription'', tr), (lit ''aiResponse'', resp),
                     (lit ''aiAudioBase64'', JString audio)]),
       if truthy resp then snd (generateSpeech e synth resp) else [])"
    and other: "\<forall>s'. \<exists>audio'. fst (examinerAttempt e generate s' model ai) =
               Inr (JObject [(lit ''userTranscription'', tr), (lit ''aiResponse'', resp),
                             (lit ''aiAudioBase64'', JString audio')])"
  from other obtain audio' where "fst (examinerAttempt e generate synth' model ai) =
      Inr (JObject [(lit ''userTranscription'', tr), (lit ''aiResponse'', resp),
                    (lit ''aiAudioBase64'', JString audio')])"
    by blast
  then show ?thesis using run by (simp add: result_fields del: getProp.simps)
qed

lemma examinerAttempt_nested:
  assumes "snd (examinerAttempt e generate synth model ai) \<noteq> []"
  shows "\<exists>v resp. fst (examinerAttempt e generate synth model ai) = Inr v
      \<and> getProp v (lit ''aiResponse'') = Inr resp \<and> truthy resp"
  using examinerAttempt_cases [of e generate synth model ai]
proof (elim disjE exE conjE)
  fix err
  assume "examinerAttempt e generate synth model ai = (Inl err, [])"
  then show ?thesis using assms by simp
next
  fix tr resp audio
  assume run: "examinerAttempt e generate synth model ai =
      (Inr (JObject [(lit ''userTranscription'', tr), (lit ''aiResponse'', resp),
                     (lit ''aiAudioBase64'', JString audio)]),
       if truthy resp then snd (generateSpeech e synth resp) else [])"
  then have "truthy resp" using assms by (auto split: if_splits)
  moreover have "getProp (JObject [(lit ''userTranscription'', tr), (lit ''aiResponse'', resp),
      (lit ''aiAudioBase64'', JString audio)]) (lit ''aiResponse'') = Inr resp"
    by (rule result_fields)
  ultimately show ?thesis using run by (simp del: getProp.simps)
qed

lemma examinerAttempt_silent_audio:
  assumes fails: "\<forall>txt ai m. isl (fst (speechAttempt (synth txt) m ai))"
    and ok: "fst (examinerAttempt e generate synth model ai) = Inr v"
  shows "getProp v (lit ''aiAudioBase64'') = Inr (JString [])"
  using examinerAttempt_cases [of e generate synth model ai]
proof (elim disjE exE conjE)
  fix err
  assume "examinerAttempt e generate synth model ai = (Inl err, [])"
  then show ?thesis using ok by simp
next
  fix tr resp audio
  assume a: "fst (if truthy resp then generateSpeech e synth resp else (Inr [], []))
      = Inr audio"
    and run: "examinerAttempt e generate synth model ai =
      (Inr (JObject [(lit ''userTranscription'', tr), (lit ''aiResponse'', resp),
                     (lit ''aiAudioBase64'', JString audio)]),
       if truthy resp then snd (generateSpeech e synth resp) else [])"
  have "fst (generateSpeech e synth resp) = Inr []"
    using fails by (intro generateSpeech_all_fail) blast
  then have "audio = []" using a by (auto split: if_splits)
  moreover have "getProp (JObject [(lit ''userTranscription'', tr), (lit ''aiResponse'', resp),
      (lit ''aiAudioBase64'', JString audio)]) (lit ''aiAudioBase64'') = Inr (JString audio)"
    by (rule result_fields)
  ultimately show ?thesis using run ok by (auto simp del: getProp.simps)
qed

lemma callAIWithRetry_projection:
  assumes "\<And>m ai. map_sum id f (fst (operationFn m ai)) = map_sum id f (fst (operationFn' m ai))"
  shows "map_sum id f (fst (callAIWithRetry e operationName operationFn))
           = map_sum id f (fst (callAIWithRetry e operationName operationFn'))
       \<and> map invModel (snd (callAIWithRetry e operationName operationFn))
           = map invModel (snd (callAIWithRetry e operationName operationFn'))"
proof (cases "getApiKey e = []")
  case True
  then show ?thesis by (simp add: callAIWithRetry_no_key)
next
  case False
  then show ?thesis
    using tryModels_projection [where operationFn = operationFn and operationFn' = operationFn'
        and f = f and key = "getApiKey e" and ms = "uniqueFallbacks e"
        and operationName = operationName and lastError = None] assms
    by (simp add: callAIWithRetry_def Let_def)
qed

lemma callAIWithRetry_trace_members:
  assumes "call \<in> set (snd (callAIWithRetry e operationName operationFn))"
  shows "\<exists>m. call = Invocation operationName m (snd (operationFn m \<lparr>apiKey = getApiKey e\<rparr>))
      \<and> (isl (fst (operationFn m \<lparr>apiKey = getApiKey e\<rparr>))
          \<or> fst (callAIWithRetry e operationName operationFn)
              = fst (operationFn m \<lparr>apiKey = getApiKey e\<rparr>))"
proof (cases "getApiKey e = []")
  case True
  then show ?thesis using assms by (simp add: callAIWithRetry_no_key)
next
  case False
  then show ?thesis
    using assms tryModels_trace_members [where operationFn = operationFn
        and key = "getApiKey e" and ms = "uniqueFallbacks e" and call = call
        and operationName = operationName and lastError = None]
    by (simp add: callAIWithRetry_def Let_def)
qed

lemma callAIWithRetry_result_from:
  assumes "fst (callAIWithRetry e operationName operationFn) = Inr v"
  shows "\<exists>m. fst (operationFn m \<lparr>apiKey = getApiKey e\<rparr>) = Inr v"
proof (cases "getApiKey e = []")
  case True
  then show ?thesis using assms by (simp add: callAIWithRetry_no_key)
next
  case False
  then show ?thesis
    using assms tryModels_result_from [where operationFn = operationFn
        and key = "getApiKey e" and ms = "uniqueFallbacks e" and v = v
        and operationName = operationName and lastError = None]
    by (auto simp add: callAIWithRetry_def Let_def)
qed

lemma interact_chatty_silent:
  "interactWithExaminer browserEnv chatty silent =
    (Inr (JObject [(lit ''userTranscription'', JString (lit ''hi'')),
                   (lit ''aiResponse'', JString (lit ''Hello'')),
                   (lit ''aiAudioBase64'', JString [])]),
     [Invocation (lit ''interactWithExaminer'') (lit ''gemini-3-flash-preview'')
        [Invocation (lit ''generateSpeech'') (lit ''gemini-3-flash-preview'') [],
         Invocation (lit ''generateSpeech'') (lit ''gemini-3-pro-preview'') [],
         Invocation (lit ''generateSpeech'') (lit ''gemini-2.5-flash'') []]])"
proof -
  have key: "getApiKey browserEnv \<noteq> []" by (simp add: getApiKey_browserEnv lit_def)
  have sp: "generateSpeech browserEnv silent (JString (lit ''Hello'')) =
      (Inr [], [Invocation (lit ''generateSpeech'') (lit ''gemini-3-flash-preview'') [],
         Invocation (lit ''generateSpeech'') (lit ''gemini-3-pro-preview'') [],
         Invocation (lit ''generateSpeech'') (lit ''gemini-2.5-flash'') []])"
    using key
    by (simp add: generateSpeech_def callAIWithRetry_def Let_def uniqueFallbacks_browserEnv
        speechAttempt_def silent_def)
  have r: "getProp (JObject [(lit ''transcription'', JString (lit ''hi'')),
                    (lit ''response'', JString (lit ''Hello''))]) (lit ''response'')
      = Inr (JString (lit ''Hello''))"
    by (simp add: lit_def)
  have t: "getProp (JObject [(lit ''transcription'', JString (lit ''hi'')),
                    (lit ''response'', JString (lit ''Hello''))]) (lit ''transcription'')
      = Inr (JString (lit ''hi''))"
    by (simp add: lit_def)
  have tr: "truthy (JString (lit ''Hello''))" "truthy (JString (lit ''hi''))"
    by (simp_all add: lit_def)
  have ne: "lit ''{\"transcription\":\"hi\",\"response\":\"Hello\"}'' \<noteq> []"
    by (simp add: lit_def)
  have att: "examinerAttempt browserEnv chatty silent (hd (uniqueFallbacks browserEnv))
      \<lparr>apiKey = getApiKey browserEnv\<rparr> =
    (Inr (JObject [(lit ''userTranscription'', JString (lit ''hi'')),
                   (lit ''aiResponse'', JString (lit ''Hello'')),
                   (lit ''aiAudioBase64'', JString [])]),
        [Invocation (lit ''generateSpeech'') (lit ''gemini-3-flash-preview'') [],
         Invocation (lit ''generateSpeech'') (lit ''gemini-3-pro-preview'') [],
         Invocation (lit ''generateSpeech'') (lit ''gemini-2.5-flash'') []])"
    unfolding examinerAttempt_def chatty_def textResponse_def
    using parse_chatty r t tr sp ne by (simp add: Let_def hd_browserEnv del: getProp.simps)
  show ?thesis
    unfolding interactWithExaminer_def
    using callAIWithRetry_first [where operationFn = "examinerAttempt browserEnv chatty silent"
        and e = browserEnv and operationName = "lit ''interactWithExaminer''", OF key att]
    by (simp add: hd_browserEnv)
qed

lemma examinerAttempt_local_audio:
  assumes ok: "fst (examinerAttempt e generate synth model ai) = Inr v"
    and r: "getProp v (lit ''aiResponse'') = Inr r"
    and h: "\<not> truthy r \<or> (\<forall>m \<in> set (uniqueFallbacks e).
              isl (fst (speechAttempt (synth r) m \<lparr>apiKey = getApiKey e\<rparr>)))"
  shows "getProp v (lit ''aiAudioBase64'') = Inr (JString [])"
  using examinerAttempt_cases [of e generate synth model ai]
proof (elim disjE exE conjE)
  fix err
  assume "examinerAttempt e generate synth model ai = (Inl err, [])"
  then show ?thesis using ok by simp
next
  fix tr resp audio
  assume a: "fst (if truthy resp then generateSpeech e synth resp else (Inr [], []))
      = Inr audio"
    and run: "examinerAttempt e generate synth model ai =
      (Inr (JObject [(lit ''userTranscription'', tr), (lit ''aiResponse'', resp),
                     (lit ''aiAudioBase64'', JString audio)]),
       if truthy resp then snd (generateSpeech e synth resp) else [])"
  have v: "v = JObject [(lit ''userTranscription'', tr), (lit ''aiResponse'', resp),
                     (lit ''aiAudioBase64'', JString audio)]"
    using run ok by simp
  have "getProp v (lit ''aiResponse'') = Inr resp" unfolding v by (rule result_fields)
  then have same: "r = resp" using r by simp
  have "audio = []"
  proof (cases "truthy resp")
    case False
    then show ?thesis using a by simp
  next
    case True
    then have "\<forall>m \<in> set (uniqueFallbacks e).
        isl (fst (speechAttempt (synth resp) m \<lparr>apiKey = getApiKey e\<rparr>))"
      using h same by simp
    then have "fst (generateSpeech e synth resp) = Inr []" by (rule generateSpeech_all_fail)
    then show ?thesis using a True by simp
  qed
  moreover have "getProp v (lit ''aiAudioBase64'') = Inr (JString audio)"
    unfolding v by (rule result_fields)
  ultimately show ?thesis by simp
qed

lemma interact_chatty_picky:
  "interactWithExaminer browserEnv chatty picky =
    (Inr (JObject [(lit ''userTranscription'', JString (lit ''hi'')),
                   (lit ''aiResponse'', JString (lit ''Hello'')),
                   (lit ''aiAudioBase64'', JString [])]),
     [Invocation (lit ''interactWithExaminer'') (lit ''gemini-3-flash-preview'')
        [Invocation (lit ''generateSpeech'') (lit ''gemini-3-flash-preview'') [],
         Invocation (lit ''generateSpeech'') (lit ''gemini-3-pro-preview'') [],
         Invocation (lit ''generateSpeech'') (lit ''gemini-2.5-flash'') []]])"
proof -
  have key: "getApiKey browserEnv \<noteq> []" by (simp add: getApiKey_browserEnv lit_def)
  have sp: "generateSpeech browserEnv picky (JString (lit ''Hello'')) =
      (Inr [], [Invocation (lit ''generateSpeech'') (lit ''gemini-3-flash-preview'') [],
         Invocation (lit ''generateSpeech'') (lit ''gemini-3-pro-preview'') [],
         Invocation (lit ''generateSpeech'') (lit ''gemini-2.5-flash'') []])"
    using key
    by (simp add: generateSpeech_def callAIWithRetry_def Let_def uniqueFallbacks_browserEnv
        speechAttempt_def picky_def lit_def)
  have r: "getProp (JObject [(lit ''transcription'', JString (lit ''hi'')),
                    (lit ''response'', JString (lit ''Hello''))]) (lit ''response'')
      = Inr (JString (lit ''Hello''))"
    by (simp add: lit_def)
  have t: "getProp (JObject [(lit ''transcription'', JString (lit ''hi'')),
                    (lit ''response'', JString (lit ''Hello''))]) (lit ''transcription'')
      = Inr (JString (lit ''hi''))"
    by (simp add: lit_def)
  have tr: "truthy (JString (lit ''Hello''))" "truthy (JString (lit ''hi''))"
    by (simp_all add: lit_def)
  have ne: "lit ''{\"transcription\":\"hi\",\"response\":\"Hello\"}'' \<noteq> []"
    by (simp add: lit_def)
  have att: "examinerAttempt browserEnv chatty picky (hd (uniqueFallbacks browserEnv))
      \<lparr>apiKey = getApiKey browserEnv\<rparr> =
    (Inr (JObject [(lit ''userTranscription'', JString (lit ''hi'')),
                   (lit ''aiResponse'', JString (lit ''Hello'')),
                   (lit ''aiAudioBase64'', JString [])]),
        [Invocation (lit ''generateSpeech'') (lit ''gemini-3-flash-preview'') [],
         Invocation (lit ''generateSpeech'') (lit ''gemini-3-pro-preview'') [],
         Invocation (lit ''generateSpeech'') (lit ''gemini-2.5-flash'') []])"
    unfolding examinerAttempt_def chatty_def textResponse_def
    using parse_chatty r t tr sp ne by (simp add: Let_def hd_browserEnv del: getProp.simps)
  show ?thesis
    unfolding interactWithExaminer_def
    using callAIWithRetry_first [where operationFn = "examinerAttempt browserEnv chatty picky"
        and e = browserEnv and operationName = "lit ''interactWithExaminer''", OF key att]
    by (simp add: hd_browserEnv)
qed

lemma callAIWithRetry_all_fail_value:
  assumes key: "getApiKey e \<noteq> []"
    and fails: "\<forall>m \<in> set (uniqueFallbacks e).
        isl (fst (operationFn m \<lparr>apiKey = getApiKey e\<rparr>))"
  shows "callAIWithRetry e operationName operationFn =
     (Inl (Error (exhaustedMessage
        (Some (projl (fst (operationFn (last (uniqueFallbacks e)) \<lparr>apiKey = getApiKey e\<rparr>)))))),
      map (\<lambda>m. Invocation operationName m (snd (operationFn m \<lparr>apiKey = getApiKey e\<rparr>)))
        (uniqueFallbacks e))"
proof -
  have ne: "uniqueFallbacks e \<noteq> []" by (simp add: uniqueFallbacks_def new_Set_nonempty)
  show ?thesis
    using tryModels_all_fail [where ms = "uniqueFallbacks e" and operationFn = operationFn
        and key = "getApiKey e" and operationName = operationName and lastError = None,
        OF fails] key ne
    by (simp add: callAIWithRetry_def Let_def)
qed

text \<open>
  A failure on candidate \<open>i\<close>, reached through failures: the next candidate is invoked
  when there is one, and otherwise the call fails with the aggregated error.
\<close>

lemma callAIWithRetry_fail_through:
  assumes key: "getApiKey e \<noteq> []" and i: "i < length (uniqueFallbacks e)"
    and reach: "\<forall>j<i. isl (fst (operationFn (uniqueFallbacks e ! j) \<lparr>apiKey = getApiKey e\<rparr>))"
    and here: "fst (operationFn (uniqueFallbacks e ! i) \<lparr>apiKey = getApiKey e\<rparr>) = Inl err"
  shows "(Suc i < length (uniqueFallbacks e) \<longrightarrow>
           Suc i < length (snd (callAIWithRetry e operationName operationFn))
           \<and> take (Suc (Suc i)) (map invModel (snd (callAIWithRetry e operationName operationFn)))
               = take (Suc (Suc i)) (uniqueFallbacks e))
       \<and> (Suc i = length (uniqueFallbacks e) \<longrightarrow>
           fst (callAIWithRetry e operationName operationFn)
             = Inl (Error (exhaustedMessage (Some err)))
           \<and> map invModel (snd (callAIWithRetry e operationName operationFn))
               = uniqueFallbacks e)"
proof (intro conjI impI)
  have upto: "\<forall>j<Suc i. isl (fst (operationFn (uniqueFallbacks e ! j) \<lparr>apiKey = getApiKey e\<rparr>))"
    using reach here by (auto simp: less_Suc_eq)
  {
    assume nxt: "Suc i < length (uniqueFallbacks e)"
    note att = callAIWithRetry_attempted [where operationFn = operationFn and e = e
        and i = "Suc i" and operationName = operationName, OF key nxt upto]
    show "Suc i < length (snd (callAIWithRetry e operationName operationFn))"
      using att by blast
    show "take (Suc (Suc i)) (map invModel (snd (callAIWithRetry e operationName operationFn)))
               = take (Suc (Suc i)) (uniqueFallbacks e)"
      using att by blast
  }
  {
    assume lst: "Suc i = length (uniqueFallbacks e)"
    have all: "\<forall>m \<in> set (uniqueFallbacks e).
        isl (fst (operationFn m \<lparr>apiKey = getApiKey e\<rparr>))"
    proof
      fix m assume "m \<in> set (uniqueFallbacks e)"
      then obtain j where "j < length (uniqueFallbacks e)" "uniqueFallbacks e ! j = m"
        by (auto simp: in_set_conv_nth)
      then show "isl (fst (operationFn m \<lparr>apiKey = getApiKey e\<rparr>))"
        using upto lst by auto
    qed
    have ne: "uniqueFallbacks e \<noteq> []" using i by auto
    have "last (uniqueFallbacks e) = uniqueFallbacks e ! i"
      using ne lst [symmetric] by (simp add: last_conv_nth)
    then have l: "projl (fst (operationFn (last (uniqueFallbacks e)) \<lparr>apiKey = getApiKey e\<rparr>))
        = err"
      using here by simp
    note run = callAIWithRetry_all_fail_value [where operationFn = operationFn and e = e
        and operationName = operationName, OF key all]
    show "fst (callAIWithRetry e operationName operationFn)
        = Inl (Error (exhaustedMessage (Some err)))"
      using run l by simp
    show "map invModel (snd (callAIWithRetry e operationName operationFn)) = uniqueFallbacks e"
      using run by (simp add: comp_def)
  }
qed

lemma callAIWithRetry_no_parse_error:
  "((\<exists>v. fst (callAIWithRetry e operationName operationFn) = Inr v)
      \<or> (\<exists>msg. fst (callAIWithRetry e operationName operationFn) = Inl (Error msg)))
   \<and> (\<forall>s err. JSON_parse s = Inl err \<longrightarrow>
          fst (callAIWithRetry e operationName operationFn) \<noteq> Inl err)"
proof (intro conjI allI impI)
  show shape: "(\<exists>v. fst (callAIWithRetry e operationName operationFn) = Inr v)
      \<or> (\<exists>msg. fst (callAIWithRetry e operationName operationFn) = Inl (Error msg))"
    by (rule callAIWithRetry_result_shape)
  fix s err
  assume "JSON_parse s = Inl err"
  then have "err = SyntaxError jsonSyntaxMessage" by (rule JSON_parse_error)
  then show "fst (callAIWithRetry e operationName operationFn) \<noteq> Inl err"
    using shape by auto
qed

lemma parse_null: "JSON_parse (cleanJsonString (lit ''null'')) = Inr JNull"
  by code_simp

section \<open>Properties of the wrapper\<close>

text \<open>
  C1. The models of the invocations that \<open>callAIWithRetry\<close> makes are always an initial
  segment of the candidate chain, in its order, and no model occurs twice. When the key is
  present, the operation fails on the candidates before position \<open>n\<close> and returns \<open>v\<close>
  on the candidate at position \<open>n\<close>, the call returns \<open>v\<close>, the invocations went to the
  first \<open>n + 1\<close> candidates and there are exactly \<open>n + 1\<close> of them.
\<close>

theorem C1_first_success:
  "(\<exists>k. map invModel (snd (callAIWithRetry e operationName operationFn))
          = take k (uniqueFallbacks e))
   \<and> distinct (map invModel (snd (callAIWithRetry e operationName operationFn)))
   \<and> (getApiKey e \<noteq> [] \<longrightarrow> n < length (uniqueFallbacks e) \<longrightarrow>
       (\<forall>i<n. isl (fst (operationFn (uniqueFallbacks e ! i) \<lparr>apiKey = getApiKey e\<rparr>))) \<longrightarrow>
       fst (operationFn (uniqueFallbacks e ! n) \<lparr>apiKey = getApiKey e\<rparr>) = Inr v \<longrightarrow>
         fst (callAIWithRetry e operationName operationFn) = Inr v
         \<and> map invModel (snd (callAIWithRetry e operationName operationFn))
             = take (Suc n) (uniqueFallbacks e)
         \<and> length (snd (callAIWithRetry e operationName operationFn)) = Suc n)"
proof (intro conjI impI)
  show pre: "\<exists>k. map invModel (snd (callAIWithRetry e operationName operationFn))
          = take k (uniqueFallbacks e)"
  proof (cases "getApiKey e = []")
    case True
    then have "map invModel (snd (callAIWithRetry e operationName operationFn))
        = take 0 (uniqueFallbacks e)"
      by (simp add: callAIWithRetry_def Let_def)
    then show ?thesis by blast
  next
    case False
    then show ?thesis
      using tryModels_trace_prefix [of operationName operationFn "getApiKey e" "uniqueFallbacks e" None]
      by (simp add: callAIWithRetry_def Let_def)
  qed
  have "distinct (uniqueFallbacks e)" by (simp add: uniqueFallbacks_def new_Set_distinct)
  then show "distinct (map invModel (snd (callAIWithRetry e operationName operationFn)))"
    using pre by auto
next
  assume key: "getApiKey e \<noteq> []" and n: "n < length (uniqueFallbacks e)"
    and fails: "\<forall>i<n. isl (fst (operationFn (uniqueFallbacks e ! i) \<lparr>apiKey = getApiKey e\<rparr>))"
    and ok: "fst (operationFn (uniqueFallbacks e ! n) \<lparr>apiKey = getApiKey e\<rparr>) = Inr v"
  have run: "callAIWithRetry e operationName operationFn =
      (Inr v, map (\<lambda>m. Invocation operationName m (snd (operationFn m \<lparr>apiKey = getApiKey e\<rparr>)))
                (take (Suc n) (uniqueFallbacks e)))"
    using tryModels_success [where ms = "uniqueFallbacks e" and operationFn = operationFn
        and key = "getApiKey e" and n = n and v = v, OF n fails ok] key
    by (simp add: callAIWithRetry_def Let_def)
  show "fst (callAIWithRetry e operationName operationFn) = Inr v" by (simp add: run)
  show "map invModel (snd (callAIWithRetry e operationName operationFn))
             = take (Suc n) (uniqueFallbacks e)"
    by (simp add: run comp_def)
  show "length (snd (callAIWithRetry e operationName operationFn)) = Suc n"
    using n by (simp add: run)
qed

theorem C1_first_success_witness:
  "fst (callAIWithRetry browserEnv (lit ''demo'') flaky)
     = Inr (lit ''done by gemini-3-pro-preview'')
   \<and> map invModel (snd (callAIWithRetry browserEnv (lit ''demo'') flaky))
     = [lit ''gemini-3-flash-preview'', lit ''gemini-3-pro-preview'']
   \<and> length (snd (callAIWithRetry browserEnv (lit ''demo'') flaky)) = 2"
proof -
  have key: "getApiKey browserEnv \<noteq> []" by (simp add: getApiKey_browserEnv lit_def)
  have n: "1 < length (uniqueFallbacks browserEnv)" by (simp add: uniqueFallbacks_browserEnv)
  have fails: "\<forall>i<1. isl (fst (flaky (uniqueFallbacks browserEnv ! i)
      \<lparr>apiKey = getApiKey browserEnv\<rparr>))"
    by (simp add: uniqueFallbacks_browserEnv flaky_def)
  have ok: "fst (flaky (uniqueFallbacks browserEnv ! 1) \<lparr>apiKey = getApiKey browserEnv\<rparr>)
      = Inr (lit ''done by gemini-3-pro-preview'')"
    by (simp add: uniqueFallbacks_browserEnv flaky_def lit_def)
  show ?thesis
    using C1_first_success [of browserEnv "lit ''demo''" flaky 1
        "lit ''done by gemini-3-pro-preview''"] key n fails ok
    by (simp add: uniqueFallbacks_browserEnv)
qed

text \<open>
  C2, as amended. When the key is present and the operation fails on every candidate,
  \<open>callAIWithRetry\<close> makes exactly one invocation per candidate of the chain, in order,
  and fails with one error whose message is the fixed template around the message of the
  error of the last candidate. The operation label is not part of that message.
\<close>

theorem C2_exhausted:
  assumes "getApiKey e \<noteq> []"
    and "\<forall>m \<in> set (uniqueFallbacks e). isl (fst (operationFn m \<lparr>apiKey = getApiKey e\<rparr>))"
  shows "length (snd (callAIWithRetry e operationName operationFn)) = length (uniqueFallbacks e)
    \<and> map invModel (snd (callAIWithRetry e operationName operationFn)) = uniqueFallbacks e
    \<and> (\<exists>err. fst (operationFn (last (uniqueFallbacks e)) \<lparr>apiKey = getApiKey e\<rparr>) = Inl err
          \<and> fst (callAIWithRetry e operationName operationFn)
              = Inl (Error (exhaustedMessage (Some err)))
          \<and> str_includes (exhaustedMessage (Some err)) (message err))"
proof -
  let ?c = "\<lparr>apiKey = getApiKey e\<rparr>"
  have ne: "uniqueFallbacks e \<noteq> []" by (simp add: uniqueFallbacks_def new_Set_nonempty)
  have run: "callAIWithRetry e operationName operationFn =
     (Inl (Error (exhaustedMessage
        (Some (projl (fst (operationFn (last (uniqueFallbacks e)) ?c)))))),
      map (\<lambda>m. Invocation operationName m (snd (operationFn m ?c))) (uniqueFallbacks e))"
    using tryModels_all_fail [where ms = "uniqueFallbacks e" and operationFn = operationFn
        and key = "getApiKey e", OF assms(2), of operationName None] assms(1) ne
    by (simp add: callAIWithRetry_def Let_def)
  have "last (uniqueFallbacks e) \<in> set (uniqueFallbacks e)" using ne by simp
  then have "isl (fst (operationFn (last (uniqueFallbacks e)) ?c))" using assms(2) by blast
  then obtain err where err: "fst (operationFn (last (uniqueFallbacks e)) ?c) = Inl err"
    by (cases "fst (operationFn (last (uniqueFallbacks e)) ?c)") auto
  have inc: "str_includes (exhaustedMessage (Some err)) (message err)"
    unfolding exhaustedMessage_def by (simp add: str_includes_mid)
  show ?thesis using run err inc by (simp add: comp_def)
qed

theorem C2_exhausted_witness:
  "length (snd (callAIWithRetry browserEnv (lit ''demo'') failing)) = 3
   \<and> fst (callAIWithRetry browserEnv (lit ''demo'') failing)
       = Inl (Error (exhaustedMessage
           (Some (Error (lit ''quota exceeded for gemini-2.5-flash'')))))"
proof -
  have key: "getApiKey browserEnv \<noteq> []" by (simp add: getApiKey_browserEnv lit_def)
  have fails: "\<forall>m \<in> set (uniqueFallbacks browserEnv).
      isl (fst (failing m \<lparr>apiKey = getApiKey browserEnv\<rparr>))"
    by (simp add: failing_def)
  have lst: "fst (failing (last (uniqueFallbacks browserEnv)) \<lparr>apiKey = getApiKey browserEnv\<rparr>)
      = Inl (Error (lit ''quota exceeded for gemini-2.5-flash''))"
    by (simp add: uniqueFallbacks_browserEnv failing_def lit_def)
  show ?thesis
    using C2_exhausted [of browserEnv failing "lit ''demo''"] key fails lst
    by (auto simp: uniqueFallbacks_browserEnv)
qed

text \<open>
  The claim of C2 that the aggregated error includes the operation label fails: with the
  label \<open>analyzeWriting\<close> and an operation that fails on every model, the message of the
  final error does not contain the label.
\<close>

theorem C2_label_counterexample:
  "fst (callAIWithRetry browserEnv (lit ''analyzeWriting'') failing)
     = Inl (Error (lit ''System overloaded or Model Error. Please try again later. (Last error: quota exceeded for gemini-2.5-flash)''))
   \<and> \<not> str_includes
       (lit ''System overloaded or Model Error. Please try again later. (Last error: quota exceeded for gemini-2.5-flash)'')
       (lit ''analyzeWriting'')"
proof
  show "fst (callAIWithRetry browserEnv (lit ''analyzeWriting'') failing)
     = Inl (Error (lit ''System overloaded or Model Error. Please try again later. (Last error: quota exceeded for gemini-2.5-flash)''))"
    by (simp add: callAIWithRetry_def Let_def getApiKey_browserEnv uniqueFallbacks_browserEnv
        failing_def exhaustedMessage_def lit_def)
  show "\<not> str_includes
       (lit ''System overloaded or Model Error. Please try again later. (Last error: quota exceeded for gemini-2.5-flash)'')
       (lit ''analyzeWriting'')"
    by code_simp
qed

text \<open>
  C3. When \<open>getApiKey\<close> returns the empty string, \<open>callAIWithRetry\<close> fails with the
  missing-key error, whose message names the \<open>Settings\<close> action, and makes no invocation
  of the operation at all.
\<close>

theorem C3_missing_key:
  "getApiKey e = [] \<Longrightarrow>
     callAIWithRetry e operationName operationFn = (Inl (Error missingKeyMessage), [])
     \<and> str_includes missingKeyMessage (lit ''Settings'')"
proof -
  have "str_includes missingKeyMessage (lit ''Settings'')"
    unfolding missingKeyMessage_def str_includes_def lit_def by code_simp
  then show "getApiKey e = [] \<Longrightarrow>
     callAIWithRetry e operationName operationFn = (Inl (Error missingKeyMessage), [])
     \<and> str_includes missingKeyMessage (lit ''Settings'')"
    by (simp add: callAIWithRetry_def Let_def)
qed

theorem C3_missing_key_witness:
  "getApiKey bareEnv = []
   \<and> callAIWithRetry bareEnv (lit ''demo'') flaky = (Inl (Error missingKeyMessage), [])"
  using C3_missing_key [of bareEnv "lit ''demo''" flaky] getApiKey_bareEnv by simp

text \<open>
  C4. The candidate chain never contains a model twice. Its first element is the stored
  preference when that is one of the supported models, and \<open>gemini-3-flash-preview\<close>
  otherwise. With \<open>gemini-2.5-flash\<close> stored, the chain is \<open>gemini-2.5-flash\<close>,
  \<open>gemini-3-flash-preview\<close>, \<open>gemini-3-pro-preview\<close>.
\<close>

theorem C4_candidate_chain:
  "distinct (uniqueFallbacks e)
   \<and> hd (uniqueFallbacks e) =
       (case savedModel e of
          Some m \<Rightarrow> if m \<in> modelId ` set SUPPORTED_MODELS then m
                    else lit ''gemini-3-flash-preview''
        | None \<Rightarrow> lit ''gemini-3-flash-preview'')
   \<and> (savedModel e = Some (lit ''gemini-2.5-flash'') \<longrightarrow>
        uniqueFallbacks e =
          [lit ''gemini-2.5-flash'', lit ''gemini-3-flash-preview'', lit ''gemini-3-pro-preview''])"
proof (intro conjI impI)
  show "distinct (uniqueFallbacks e)" by (simp add: uniqueFallbacks_def new_Set_distinct)
  show "hd (uniqueFallbacks e) =
       (case savedModel e of
          Some m \<Rightarrow> if m \<in> modelId ` set SUPPORTED_MODELS then m
                    else lit ''gemini-3-flash-preview''
        | None \<Rightarrow> lit ''gemini-3-flash-preview'')"
    by (simp only: uniqueFallbacks_def new_Set_hd currentModel_cases)
next
  assume s: "savedModel e = Some (lit ''gemini-2.5-flash'')"
  have "lit ''gemini-2.5-flash'' \<in> modelId ` set SUPPORTED_MODELS"
    by (simp add: SUPPORTED_MODELS_def)
  then have "currentModel e = lit ''gemini-2.5-flash''"
    using s by (simp add: currentModel_cases)
  then show "uniqueFallbacks e =
          [lit ''gemini-2.5-flash'', lit ''gemini-3-flash-preview'', lit ''gemini-3-pro-preview'']"
    by (simp only: uniqueFallbacks_def chain_25)
qed

theorem C4_candidate_chain_witness:
  "savedModel flashEnv = Some (lit ''gemini-2.5-flash'')
   \<and> uniqueFallbacks flashEnv =
       [lit ''gemini-2.5-flash'', lit ''gemini-3-flash-preview'', lit ''gemini-3-pro-preview'']"
  using C4_candidate_chain [of flashEnv] savedModel_flashEnv by simp

section \<open>Properties of the parser and of speech synthesis\<close>

text \<open>
  C6. Cleaning and parsing the fenced text \<open>```json\<close>, line feed, \<open>{"score":7}\<close>, line
  feed, \<open>```\<close> gives the object with the one property \<open>score\<close> of value 7; so does the
  unfenced text \<open>{"score":7}\<close>; and the text \<open>not json\<close> fails with a \<open>SyntaxError\<close>.
\<close>

theorem C6_parser_examples:
  "JSON_parse (cleanJsonString (lit ''```json'' @ [0x0A] @ lit ''{\"score\":7}'' @ [0x0A] @ lit ''```''))
     = Inr (JObject [(lit ''score'', JNumber 7 0)])
   \<and> JSON_parse (cleanJsonString (lit ''{\"score\":7}''))
     = Inr (JObject [(lit ''score'', JNumber 7 0)])
   \<and> JSON_parse (cleanJsonString (lit ''not json'')) = Inl (SyntaxError jsonSyntaxMessage)"
proof (intro conjI)
  show "JSON_parse (cleanJsonString (lit ''```json'' @ [0x0A] @ lit ''{\"score\":7}'' @ [0x0A] @ lit ''```''))
     = Inr (JObject [(lit ''score'', JNumber 7 0)])"
    by code_simp
  show "JSON_parse (cleanJsonString (lit ''{\"score\":7}''))
     = Inr (JObject [(lit ''score'', JNumber 7 0)])"
    by code_simp
  show "JSON_parse (cleanJsonString (lit ''not json'')) = Inl (SyntaxError jsonSyntaxMessage)"
    by code_simp
qed

text \<open>
  C7. \<open>generateSpeech\<close> always returns a string and never an error. When the attempt
  fails on every candidate it returns the empty string. When the key is present, the
  attempts before position \<open>n\<close> fail and the candidate at position \<open>n\<close> answers with
  non-empty inline audio, it returns that audio.
\<close>

theorem C7_generateSpeech:
  "(\<exists>s. fst (generateSpeech e synth txt) = Inr s)
   \<and> ((\<forall>m \<in> set (uniqueFallbacks e).
          isl (fst (speechAttempt (synth txt) m \<lparr>apiKey = getApiKey e\<rparr>))) \<longrightarrow>
        fst (generateSpeech e synth txt) = Inr [])
   \<and> (getApiKey e \<noteq> [] \<longrightarrow> n < length (uniqueFallbacks e) \<longrightarrow>
        (\<forall>i<n. isl (fst (speechAttempt (synth txt) (uniqueFallbacks e ! i)
                    \<lparr>apiKey = getApiKey e\<rparr>))) \<longrightarrow>
        synth txt \<lparr>apiKey = getApiKey e\<rparr> (uniqueFallbacks e ! n) = Inr response \<longrightarrow>
        base64Audio response = Some audio \<longrightarrow> audio \<noteq> [] \<longrightarrow>
        fst (generateSpeech e synth txt) = Inr audio)"
proof (intro conjI impI)
  show "\<exists>s. fst (generateSpeech e synth txt) = Inr s" by (rule generateSpeech_total)
next
  assume fails: "\<forall>m \<in> set (uniqueFallbacks e).
      isl (fst (speechAttempt (synth txt) m \<lparr>apiKey = getApiKey e\<rparr>))"
  have "isl (fst (callAIWithRetry e (lit ''generateSpeech'') (speechAttempt (synth txt))))"
  proof (cases "getApiKey e = []")
    case True
    then show ?thesis by (simp add: callAIWithRetry_no_key)
  next
    case False
    then show ?thesis using fails by (rule callAIWithRetry_all_fail)
  qed
  then show "fst (generateSpeech e synth txt) = Inr []"
    by (auto simp: generateSpeech_fst split: sum.splits)
next
  assume key: "getApiKey e \<noteq> []" and n: "n < length (uniqueFallbacks e)"
    and fails: "\<forall>i<n. isl (fst (speechAttempt (synth txt) (uniqueFallbacks e ! i)
                    \<lparr>apiKey = getApiKey e\<rparr>))"
    and r: "synth txt \<lparr>apiKey = getApiKey e\<rparr> (uniqueFallbacks e ! n) = Inr response"
    and a: "base64Audio response = Some audio" and ne: "audio \<noteq> []"
  have ok: "fst (speechAttempt (synth txt) (uniqueFallbacks e ! n) \<lparr>apiKey = getApiKey e\<rparr>)
      = Inr audio"
    using r a ne by (simp add: speechAttempt_def)
  show "fst (generateSpeech e synth txt) = Inr audio"
    using callAIWithRetry_success [where operationFn = "speechAttempt (synth txt)"
        and e = e and n = n and v = audio and operationName = "lit ''generateSpeech''",
        OF key n fails ok]
    by (simp add: generateSpeech_fst)
qed

theorem C7_generateSpeech_witness:
  "fst (generateSpeech browserEnv silent (JString (lit ''Hello''))) = Inr []
   \<and> fst (generateSpeech browserEnv voiced (JString (lit ''Hello''))) = Inr (lit ''UklGRg'')"
proof -
  let ?txt = "JString (lit ''Hello'')"
  have key: "getApiKey browserEnv \<noteq> []" by (simp add: getApiKey_browserEnv lit_def)
  have f: "\<forall>m \<in> set (uniqueFallbacks browserEnv).
      isl (fst (speechAttempt (silent ?txt) m \<lparr>apiKey = getApiKey browserEnv\<rparr>))"
    by (simp add: speechAttempt_def silent_def)
  have n: "1 < length (uniqueFallbacks browserEnv)" by (simp add: uniqueFallbacks_browserEnv)
  have g: "\<forall>i<1. isl (fst (speechAttempt (voiced ?txt) (uniqueFallbacks browserEnv ! i)
      \<lparr>apiKey = getApiKey browserEnv\<rparr>))"
    by (simp add: uniqueFallbacks_browserEnv speechAttempt_def voiced_def
        base64Audio_textResponse)
  have r: "voiced ?txt \<lparr>apiKey = getApiKey browserEnv\<rparr> (uniqueFallbacks browserEnv ! 1)
      = Inr (audioResponse (lit ''UklGRg''))"
    by (simp add: uniqueFallbacks_browserEnv voiced_def lit_def)
  have ne: "lit ''UklGRg'' \<noteq> []" by (simp add: lit_def)
  show ?thesis
    using C7_generateSpeech [of browserEnv silent ?txt]
      C7_generateSpeech [of browserEnv voiced ?txt 1 "audioResponse (lit ''UklGRg'')"
        "lit ''UklGRg''"]
      key f n g r ne base64Audio_audioResponse [of "lit ''UklGRg''"]
    by blast
qed

text \<open>
  C8, as amended. \<open>cleanJsonString\<close> deletes the matches of one scan from the left and
  then trims. The scan is fixed on every text by five equations: the empty text stays
  empty; a code unit at which no fence starts is kept, a stray backtick included; a tagged
  fence goes together with one line feed behind it; a tagged fence without that line feed
  goes alone; a bare fence goes. Any function with these equations is the scan. Hence
  fences go wherever they stand (also inside a JSON string value), no \<open>```\<close> is left in the
  result, and the result is the scanned text less the white space at both ends, so it
  neither starts nor ends with white space. An occurrence that overlaps an earlier match
  is not deleted as such.
\<close>

theorem C8_cleanJsonString:
  "\<not> str_includes (cleanJsonString s) (lit ''```'')
   \<and> (\<exists>l r. stripFences s = l @ cleanJsonString s @ r
          \<and> list_all isWhiteSpace l \<and> list_all isWhiteSpace r)
   \<and> (cleanJsonString s = []
        \<or> (\<not> isWhiteSpace (hd (cleanJsonString s)) \<and> \<not> isWhiteSpace (last (cleanJsonString s))))
   \<and> stripFences [] = []
   \<and> (\<not> startsWith (c # cs) (lit ''```'') \<longrightarrow> stripFences (c # cs) = c # stripFences cs)
   \<and> stripFences (lit ''```json'' @ 0x0A # b) = stripFences b
   \<and> (\<not> startsWith b [0x0A] \<longrightarrow> stripFences (lit ''```json'' @ b) = stripFences b)
   \<and> (\<not> startsWith b (lit ''json'') \<longrightarrow> stripFences (lit ''```'' @ b) = stripFences b)
   \<and> (f [] = []
        \<and> (\<forall>c cs. \<not> startsWith (c # cs) (lit ''```'') \<longrightarrow> f (c # cs) = c # f cs)
        \<and> (\<forall>b. f (lit ''```json'' @ 0x0A # b) = f b)
        \<and> (\<forall>b. \<not> startsWith b [0x0A] \<longrightarrow> f (lit ''```json'' @ b) = f b)
        \<and> (\<forall>b. \<not> startsWith b (lit ''json'') \<longrightarrow> f (lit ''```'' @ b) = f b)
        \<longrightarrow> f s = stripFences s)
   \<and> (0x60 \<notin> set a \<longrightarrow>
        cleanJsonString (a @ lit ''```json'' @ b)
          = trim (a @ stripFences (if startsWith b [0x0A] then drop 1 b else b)))
   \<and> (0x60 \<notin> set a \<longrightarrow> \<not> startsWith b (lit ''json'') \<longrightarrow>
        cleanJsonString (a @ lit ''```'' @ b) = trim (a @ stripFences b))
   \<and> (0x60 \<notin> set s \<longrightarrow> cleanJsonString s = trim s)"
proof (intro conjI impI)
  show "\<not> str_includes (cleanJsonString s) (lit ''```'')"
    unfolding cleanJsonString_def by (rule trim_no_fence [OF stripFences_no_fence])
  show "\<exists>l r. stripFences s = l @ cleanJsonString s @ r
          \<and> list_all isWhiteSpace l \<and> list_all isWhiteSpace r"
    unfolding cleanJsonString_def by (rule trim_decompose)
  show "cleanJsonString s = []
        \<or> (\<not> isWhiteSpace (hd (cleanJsonString s)) \<and> \<not> isWhiteSpace (last (cleanJsonString s)))"
    unfolding cleanJsonString_def by (rule trim_ends)
  show "stripFences [] = []" by simp
  show "stripFences (lit ''```json'' @ 0x0A # b) = stripFences b" by (rule stripFences_json_nl)
next
  assume "\<not> startsWith (c # cs) (lit ''```'')"
  then show "stripFences (c # cs) = c # stripFences cs" by (rule stripFences_keep)
next
  assume "\<not> startsWith b [0x0A]"
  then show "stripFences (lit ''```json'' @ b) = stripFences b" by (rule stripFences_json_plain)
next
  assume "\<not> startsWith b (lit ''json'')"
  then show "stripFences (lit ''```'' @ b) = stripFences b" by (rule stripFences_at_fence)
next
  assume laws: "f [] = []
        \<and> (\<forall>c cs. \<not> startsWith (c # cs) (lit ''```'') \<longrightarrow> f (c # cs) = c # f cs)
        \<and> (\<forall>b. f (lit ''```json'' @ 0x0A # b) = f b)
        \<and> (\<forall>b. \<not> startsWith b [0x0A] \<longrightarrow> f (lit ''```json'' @ b) = f b)
        \<and> (\<forall>b. \<not> startsWith b (lit ''json'') \<longrightarrow> f (lit ''```'' @ b) = f b)"
  show "f s = stripFences s"
  proof (rule stripFences_unique)
    show "f [] = []" using laws by blast
    show "\<And>c cs. \<not> startsWith (c # cs) (lit ''```'') \<Longrightarrow> f (c # cs) = c # f cs"
      using laws by blast
    show "\<And>b. f (lit ''```json'' @ 0x0A # b) = f b" using laws by blast
    show "\<And>b. \<not> startsWith b [0x0A] \<Longrightarrow> f (lit ''```json'' @ b) = f b"
      using laws by blast
    show "\<And>b. \<not> startsWith b (lit ''json'') \<Longrightarrow> f (lit ''```'' @ b) = f b"
      using laws by blast
  qed
next
  assume a: "0x60 \<notin> set a"
  show "cleanJsonString (a @ lit ''```json'' @ b)
          = trim (a @ stripFences (if startsWith b [0x0A] then drop 1 b else b))"
    unfolding cleanJsonString_def
    by (simp only: stripFences_plain_prefix [OF a] stripFences_at_json)
next
  assume a: "0x60 \<notin> set a" and b: "\<not> startsWith b (lit ''json'')"
  show "cleanJsonString (a @ lit ''```'' @ b) = trim (a @ stripFences b)"
    unfolding cleanJsonString_def
    by (simp only: stripFences_plain_prefix [OF a] stripFences_at_fence [OF b])
next
  assume s: "0x60 \<notin> set s"
  have "stripFences (s @ []) = s @ stripFences []" by (rule stripFences_plain_prefix [OF s])
  then show "cleanJsonString s = trim s" by (simp add: cleanJsonString_def)
qed

theorem C8_cleanJsonString_witness:
  "cleanJsonString (lit '' {\"a\":1} '') = lit ''{\"a\":1}''
   \<and> cleanJsonString (lit ''{\"a\":\"x'' @ lit ''```json'' @ lit ''y\"}'') = lit ''{\"a\":\"xy\"}''
   \<and> cleanJsonString (lit ''{\"a\":\"x'' @ lit ''```'' @ lit ''y\"}'') = lit ''{\"a\":\"xy\"}''
   \<and> stripFences (lit ''`has`'') = 0x60 # stripFences (lit ''has`'')
   \<and> cleanJsonString (lit ''{\"feedback\":\"use `has`\"}'') = lit ''{\"feedback\":\"use `has`\"}''
   \<and> stripFences (lit ''```json'' @ lit ''y\"}'') = stripFences (lit ''y\"}'')
   \<and> stripFences (lit ''```'' @ lit ''y\"}'') = stripFences (lit ''y\"}'')"
proof -
  have a: "0x60 \<notin> set (lit ''{\"a\":\"x'')" by (simp add: lit_def)
  have b: "\<not> startsWith (lit ''y\"}'') (lit ''json'')" by (simp add: startsWith_def lit_def)
  have n: "\<not> startsWith (lit ''y\"}'') [0x0A]" by (simp add: startsWith_def lit_def)
  have s: "0x60 \<notin> set (lit '' {\"a\":1} '')" by (simp add: lit_def)
  have k: "\<not> startsWith (0x60 # lit ''has`'') (lit ''```'')"
    by (simp add: startsWith_def lit_def)
  have h: "lit ''`has`'' = 0x60 # lit ''has`''" by (simp add: lit_def)
  have t1: "trim (lit '' {\"a\":1} '') = lit ''{\"a\":1}''" by code_simp
  have t2: "trim (lit ''{\"a\":\"x'' @ stripFences
      (if startsWith (lit ''y\"}'') [0x0A] then drop 1 (lit ''y\"}'') else lit ''y\"}''))
      = lit ''{\"a\":\"xy\"}''" by code_simp
  have t3: "trim (lit ''{\"a\":\"x'' @ stripFences (lit ''y\"}'')) = lit ''{\"a\":\"xy\"}''"
    by code_simp
  have t4: "cleanJsonString (lit ''{\"feedback\":\"use `has`\"}'')
      = lit ''{\"feedback\":\"use `has`\"}''"
    by code_simp
  show ?thesis
    using C8_cleanJsonString [of "lit '' {\"a\":1} ''" "0x60" "lit ''has`''" "lit ''y\"}''"
        stripFences "lit ''{\"a\":\"x''"]
      a b n s k h t1 t2 t3 t4
    by simp
qed

text \<open>
  The claim of C8 that every occurrence is deleted fails where occurrences overlap: in
  four backticks, \<open>json\<close>, a line feed and \<open>{}\<close> the tagged fence occurs at offset 1, and
  deleting every occurrence leaves \<open>{}\<close>; \<open>cleanJsonString\<close> deletes the first three
  backticks only and returns a backtick, \<open>json\<close>, the line feed and \<open>{}\<close>.
\<close>

theorem C8_overlap_counterexample:
  "occursAt (lit ''````json'' @ 0x0A # lit ''{}'') (lit ''```json'') 1
   \<and> trim (deleteAllOccurrences (lit ''````json'' @ 0x0A # lit ''{}'')) = lit ''{}''
   \<and> cleanJsonString (lit ''````json'' @ 0x0A # lit ''{}'') = lit ''`json'' @ 0x0A # lit ''{}''
   \<and> cleanJsonString (lit ''````json'' @ 0x0A # lit ''{}'')
       \<noteq> trim (deleteAllOccurrences (lit ''````json'' @ 0x0A # lit ''{}''))"
proof (intro conjI)
  show "occursAt (lit ''````json'' @ 0x0A # lit ''{}'') (lit ''```json'') 1"
    by code_simp
  show "trim (deleteAllOccurrences (lit ''````json'' @ 0x0A # lit ''{}'')) = lit ''{}''"
    by code_simp
  show "cleanJsonString (lit ''````json'' @ 0x0A # lit ''{}'') = lit ''`json'' @ 0x0A # lit ''{}''"
    by code_simp
  show "cleanJsonString (lit ''````json'' @ 0x0A # lit ''{}'')
       \<noteq> trim (deleteAllOccurrences (lit ''````json'' @ 0x0A # lit ''{}''))"
    by code_simp
qed

section \<open>Properties of the task callers\<close>

text \<open>
  C5. When the text answered for a model does not parse, the attempt on that model fails
  with the parse error, for the operation of \<open>analyzeWriting\<close>, \<open>gradeSpeakingSession\<close>
  and \<open>analyzePronunciation\<close> and for that of \<open>interactWithExaminer\<close>. Each of the four
  callers returns a value or an aggregated \<open>Error\<close>, never the error of a parse. When the
  key is present and a caller's own attempts fail on the candidates before position \<open>i\<close>
  (for whatever reason) and the text on candidate \<open>i\<close> does not parse, the caller goes on
  to invoke the next candidate if there is one, and fails with the aggregated error around
  the message of the parse error if candidate \<open>i\<close> is the last.
\<close>

theorem C5_parse_failure_falls_back:
  "(generate ai model = Inr response \<longrightarrow>
      JSON_parse (cleanJsonString
        (if truthyStr (responseText response) then the (responseText response)
         else lit ''{}'')) = Inl perr \<longrightarrow>
      fst (jsonAttempt generate model ai) = Inl perr
      \<and> fst (examinerAttempt e generate synth model ai) = Inl perr)
   \<and> (\<forall>run \<in> {analyzeWriting e generate, gradeSpeakingSession e generate,
                 analyzePronunciation e generate, interactWithExaminer e generate synth}.
        ((\<exists>v. fst run = Inr v) \<or> (\<exists>msg. fst run = Inl (Error msg)))
        \<and> (\<forall>txt err. JSON_parse txt = Inl err \<longrightarrow> fst run \<noteq> Inl err))
   \<and> (getApiKey e \<noteq> [] \<longrightarrow> i < length (uniqueFallbacks e) \<longrightarrow>
        generate \<lparr>apiKey = getApiKey e\<rparr> (uniqueFallbacks e ! i) = Inr response \<longrightarrow>
        JSON_parse (cleanJsonString
          (if truthyStr (responseText response) then the (responseText response)
           else lit ''{}'')) = Inl perr \<longrightarrow>
        ((\<forall>j<i. isl (fst (jsonAttempt generate (uniqueFallbacks e ! j)
                      \<lparr>apiKey = getApiKey e\<rparr>))) \<longrightarrow>
           (\<forall>run \<in> {analyzeWriting e generate, gradeSpeakingSession e generate,
                     analyzePronunciation e generate}.
              (Suc i < length (uniqueFallbacks e) \<longrightarrow>
                 Suc i < length (snd run)
                 \<and> take (Suc (Suc i)) (map invModel (snd run))
                     = take (Suc (Suc i)) (uniqueFallbacks e))
              \<and> (Suc i = length (uniqueFallbacks e) \<longrightarrow>
                 fst run = Inl (Error (exhaustedMessage (Some perr)))
                 \<and> map invModel (snd run) = uniqueFallbacks e)))
        \<and> ((\<forall>j<i. isl (fst (examinerAttempt e generate synth (uniqueFallbacks e ! j)
                        \<lparr>apiKey = getApiKey e\<rparr>))) \<longrightarrow>
             (Suc i < length (uniqueFallbacks e) \<longrightarrow>
                Suc i < length (snd (interactWithExaminer e generate synth))
                \<and> take (Suc (Suc i)) (map invModel (snd (interactWithExaminer e generate synth)))
                    = take (Suc (Suc i)) (uniqueFallbacks e))
             \<and> (Suc i = length (uniqueFallbacks e) \<longrightarrow>
                fst (interactWithExaminer e generate synth)
                  = Inl (Error (exhaustedMessage (Some perr)))
                \<and> map invModel (snd (interactWithExaminer e generate synth))
                    = uniqueFallbacks e)))"
proof -
  let ?ai = "\<lparr>apiKey = getApiKey e\<rparr>"
  have attempt: "generate ai model = Inr response \<longrightarrow>
      JSON_parse (cleanJsonString
        (if truthyStr (responseText response) then the (responseText response)
         else lit ''{}'')) = Inl perr \<longrightarrow>
      fst (jsonAttempt generate model ai) = Inl perr
      \<and> fst (examinerAttempt e generate synth model ai) = Inl perr"
    using jsonAttempt_parse_fails [of generate ai model response perr]
      examinerAttempt_parse_fails [of generate ai model response perr e synth]
    by simp
  have shape: "\<forall>run \<in> {analyzeWriting e generate, gradeSpeakingSession e generate,
                 analyzePronunciation e generate, interactWithExaminer e generate synth}.
        ((\<exists>v. fst run = Inr v) \<or> (\<exists>msg. fst run = Inl (Error msg)))
        \<and> (\<forall>txt err. JSON_parse txt = Inl err \<longrightarrow> fst run \<noteq> Inl err)"
    unfolding analyzeWriting_def gradeSpeakingSession_def analyzePronunciation_def
      interactWithExaminer_def
    using callAIWithRetry_no_parse_error [of e "lit ''analyzeWriting''" "jsonAttempt generate"]
      callAIWithRetry_no_parse_error [of e "lit ''gradeSpeakingSession''" "jsonAttempt generate"]
      callAIWithRetry_no_parse_error [of e "lit ''analyzePronunciation''" "jsonAttempt generate"]
      callAIWithRetry_no_parse_error [of e "lit ''interactWithExaminer''"
        "examinerAttempt e generate synth"]
    by blast
  have local: "(\<forall>j<i. isl (fst (jsonAttempt generate (uniqueFallbacks e ! j) ?ai))) \<longrightarrow>
           (\<forall>run \<in> {analyzeWriting e generate, gradeSpeakingSession e generate,
                     analyzePronunciation e generate}.
              (Suc i < length (uniqueFallbacks e) \<longrightarrow>
                 Suc i < length (snd run)
                 \<and> take (Suc (Suc i)) (map invModel (snd run))
                     = take (Suc (Suc i)) (uniqueFallbacks e))
              \<and> (Suc i = length (uniqueFallbacks e) \<longrightarrow>
                 fst run = Inl (Error (exhaustedMessage (Some perr)))
                 \<and> map invModel (snd run) = uniqueFallbacks e))"
    and examiner: "(\<forall>j<i. isl (fst (examinerAttempt e generate synth (uniqueFallbacks e ! j)
                        ?ai))) \<longrightarrow>
             (Suc i < length (uniqueFallbacks e) \<longrightarrow>
                Suc i < length (snd (interactWithExaminer e generate synth))
                \<and> take (Suc (Suc i)) (map invModel (snd (interactWithExaminer e generate synth)))
                    = take (Suc (Suc i)) (uniqueFallbacks e))
             \<and> (Suc i = length (uniqueFallbacks e) \<longrightarrow>
                fst (interactWithExaminer e generate synth)
                  = Inl (Error (exhaustedMessage (Some perr)))
                \<and> map invModel (snd (interactWithExaminer e generate synth))
                    = uniqueFallbacks e)"
    if key: "getApiKey e \<noteq> []" and i: "i < length (uniqueFallbacks e)"
      and resp: "generate ?ai (uniqueFallbacks e ! i) = Inr response"
      and bad: "JSON_parse (cleanJsonString
          (if truthyStr (responseText response) then the (responseText response)
           else lit ''{}'')) = Inl perr"
  proof -
    have j: "fst (jsonAttempt generate (uniqueFallbacks e ! i) ?ai) = Inl perr"
      using jsonAttempt_parse_fails [of generate ?ai "uniqueFallbacks e ! i" response perr]
        resp bad by simp
    have x: "fst (examinerAttempt e generate synth (uniqueFallbacks e ! i) ?ai) = Inl perr"
      using examinerAttempt_parse_fails [of generate ?ai "uniqueFallbacks e ! i" response perr
          e synth] resp bad by simp
    show "(\<forall>j<i. isl (fst (jsonAttempt generate (uniqueFallbacks e ! j) ?ai))) \<longrightarrow>
           (\<forall>run \<in> {analyzeWriting e generate, gradeSpeakingSession e generate,
                     analyzePronunciation e generate}.
              (Suc i < length (uniqueFallbacks e) \<longrightarrow>
                 Suc i < length (snd run)
                 \<and> take (Suc (Suc i)) (map invModel (snd run))
                     = take (Suc (Suc i)) (uniqueFallbacks e))
              \<and> (Suc i = length (uniqueFallbacks e) \<longrightarrow>
                 fst run = Inl (Error (exhaustedMessage (Some perr)))
                 \<and> map invModel (snd run) = uniqueFallbacks e))"
    proof
      assume reach: "\<forall>j<i. isl (fst (jsonAttempt generate (uniqueFallbacks e ! j) ?ai))"
      note ft = callAIWithRetry_fail_through [where operationFn = "jsonAttempt generate"
          and e = e and i = i and err = perr, OF key i reach j]
      show "\<forall>run \<in> {analyzeWriting e generate, gradeSpeakingSession e generate,
                     analyzePronunciation e generate}.
              (Suc i < length (uniqueFallbacks e) \<longrightarrow>
                 Suc i < length (snd run)
                 \<and> take (Suc (Suc i)) (map invModel (snd run))
                     = take (Suc (Suc i)) (uniqueFallbacks e))
              \<and> (Suc i = length (uniqueFallbacks e) \<longrightarrow>
                 fst run = Inl (Error (exhaustedMessage (Some perr)))
                 \<and> map invModel (snd run) = uniqueFallbacks e)"
        unfolding analyzeWriting_def gradeSpeakingSession_def analyzePronunciation_def
        using ft [of "lit ''analyzeWriting''"] ft [of "lit ''gradeSpeakingSession''"]
          ft [of "lit ''analyzePronunciation''"]
        by blast
    qed
    show "(\<forall>j<i. isl (fst (examinerAttempt e generate synth (uniqueFallbacks e ! j)
                        ?ai))) \<longrightarrow>
             (Suc i < length (uniqueFallbacks e) \<longrightarrow>
                Suc i < length (snd (interactWithExaminer e generate synth))
                \<and> take (Suc (Suc i)) (map invModel (snd (interactWithExaminer e generate synth)))
                    = take (Suc (Suc i)) (uniqueFallbacks e))
             \<and> (Suc i = length (uniqueFallbacks e) \<longrightarrow>
                fst (interactWithExaminer e generate synth)
                  = Inl (Error (exhaustedMessage (Some perr)))
                \<and> map invModel (snd (interactWithExaminer e generate synth))
                    = uniqueFallbacks e)"
    proof
      assume reach: "\<forall>j<i. isl (fst (examinerAttempt e generate synth (uniqueFallbacks e ! j)
          ?ai))"
      show "(Suc i < length (uniqueFallbacks e) \<longrightarrow>
                Suc i < length (snd (interactWithExaminer e generate synth))
                \<and> take (Suc (Suc i)) (map invModel (snd (interactWithExaminer e generate synth)))
                    = take (Suc (Suc i)) (uniqueFallbacks e))
             \<and> (Suc i = length (uniqueFallbacks e) \<longrightarrow>
                fst (interactWithExaminer e generate synth)
                  = Inl (Error (exhaustedMessage (Some perr)))
                \<and> map invModel (snd (interactWithExaminer e generate synth))
                    = uniqueFallbacks e)"
        unfolding interactWithExaminer_def
        by (rule callAIWithRetry_fail_through [where
              operationFn = "examinerAttempt e generate synth" and e = e and i = i
              and err = perr, OF key i reach x])
    qed
  qed
  show ?thesis using attempt shape local examiner by blast
qed

theorem C5_parse_failure_falls_back_witness:
  "Suc 0 < length (snd (analyzeWriting browserEnv garbled))
   \<and> take (Suc (Suc 0)) (map invModel (snd (analyzeWriting browserEnv garbled)))
       = [lit ''gemini-3-flash-preview'', lit ''gemini-3-pro-preview'']
   \<and> fst (analyzeWriting browserEnv garbled) \<noteq> Inl (SyntaxError jsonSyntaxMessage)
   \<and> fst (jsonAttempt stumbling (lit ''gemini-3-flash-preview'') \<lparr>apiKey = lit ''AIza-key''\<rparr>)
       = Inr JNull
   \<and> Suc (Suc 0) < length (snd (interactWithExaminer browserEnv stumbling silent))
   \<and> take (Suc (Suc (Suc 0)))
        (map invModel (snd (interactWithExaminer browserEnv stumbling silent)))
       = [lit ''gemini-3-flash-preview'', lit ''gemini-3-pro-preview'', lit ''gemini-2.5-flash'']"
proof -
  let ?ai = "\<lparr>apiKey = getApiKey browserEnv\<rparr>"
  let ?bad = "textResponse (Some (lit ''not json''))"
  let ?perr = "SyntaxError jsonSyntaxMessage"
  have key: "getApiKey browserEnv \<noteq> []" by (simp add: getApiKey_browserEnv lit_def)
  have len: "length (uniqueFallbacks browserEnv) = 3" by (simp add: uniqueFallbacks_browserEnv)
  have bad: "JSON_parse (cleanJsonString
        (if truthyStr (responseText ?bad) then the (responseText ?bad) else lit ''{}''))
      = Inl ?perr"
    using parse_not_json by (simp add: textResponse_def lit_def)
  have null: "JSON_parse (cleanJsonString
        (if truthyStr (responseText (textResponse (Some (lit ''null''))))
         then the (responseText (textResponse (Some (lit ''null'')))) else lit ''{}''))
      = Inr JNull"
    using parse_null by (simp add: textResponse_def lit_def)
  have g0: "garbled ?ai (uniqueFallbacks browserEnv ! 0) = Inr ?bad"
    by (simp add: uniqueFallbacks_browserEnv garbled_def)
  have s0: "stumbling ?ai (uniqueFallbacks browserEnv ! 0)
      = Inr (textResponse (Some (lit ''null'')))"
    by (simp add: uniqueFallbacks_browserEnv stumbling_def)
  have s1: "stumbling ?ai (uniqueFallbacks browserEnv ! Suc 0) = Inr ?bad"
    by (simp add: uniqueFallbacks_browserEnv stumbling_def lit_def)
  have j0: "jsonAttempt stumbling (uniqueFallbacks browserEnv ! 0) ?ai = (Inr JNull, [])"
    using jsonAttempt_parsed [where generate = stumbling and ai = ?ai
        and model = "uniqueFallbacks browserEnv ! 0", OF s0 null] .
  have x0: "examinerAttempt browserEnv stumbling silent (uniqueFallbacks browserEnv ! 0) ?ai
      = (Inl (TypeError nullReadMessage), [])"
    using examinerAttempt_null [where generate = stumbling and ai = ?ai
        and model = "uniqueFallbacks browserEnv ! 0" and e = browserEnv and synth = silent,
        OF s0 null]
    by simp
  have reach: "\<forall>j<Suc 0. isl (fst (examinerAttempt browserEnv stumbling silent
      (uniqueFallbacks browserEnv ! j) ?ai))"
    using x0 by simp
  have none: "\<forall>j<0. isl (fst (jsonAttempt garbled (uniqueFallbacks browserEnv ! j) ?ai))"
    by simp
  note writing = C5_parse_failure_falls_back [where e = browserEnv and generate = garbled
      and synth = silent and i = 0 and response = ?bad and perr = ?perr]
  note examiner = C5_parse_failure_falls_back [where e = browserEnv and generate = stumbling
      and synth = silent and i = "Suc 0" and response = ?bad and perr = ?perr]
  have w: "Suc 0 < length (snd (analyzeWriting browserEnv garbled))
      \<and> take (Suc (Suc 0)) (map invModel (snd (analyzeWriting browserEnv garbled)))
          = take (Suc (Suc 0)) (uniqueFallbacks browserEnv)
      \<and> fst (analyzeWriting browserEnv garbled) \<noteq> Inl ?perr"
    using writing key len g0 bad none by simp
  have x: "Suc (Suc 0) < length (snd (interactWithExaminer browserEnv stumbling silent))
      \<and> take (Suc (Suc (Suc 0)))
           (map invModel (snd (interactWithExaminer browserEnv stumbling silent)))
          = take (Suc (Suc (Suc 0))) (uniqueFallbacks browserEnv)"
    using examiner key len s1 bad reach by simp
  show ?thesis
    using w x j0 by (simp add: uniqueFallbacks_browserEnv getApiKey_browserEnv)
qed

text \<open>
  C9, as amended. When the response has no text or the empty text, the literal \<open>{}\<close> is
  parsed instead: the attempt of \<open>analyzeWriting\<close>, \<open>gradeSpeakingSession\<close> and
  \<open>analyzePronunciation\<close> succeeds with the object without properties, and the attempt
  of \<open>interactWithExaminer\<close> succeeds, without a synthesis call, with the object whose
  \<open>userTranscription\<close> is the empty string, whose \<open>aiResponse\<close> is \<open>undefined\<close> and whose
  \<open>aiAudioBase64\<close> is the empty string. When this happens on the first candidate, the
  callers return these values after one invocation.
\<close>

theorem C9_empty_text:
  assumes "generate ai model = Inr response" and "\<not> truthyStr (responseText response)"
  shows "jsonAttempt generate model ai = (Inr (JObject []), [])
    \<and> examinerAttempt e generate synth model ai =
        (Inr (JObject [(lit ''userTranscription'', JString []), (lit ''aiResponse'', JUndefined),
                       (lit ''aiAudioBase64'', JString [])]), [])
    \<and> (getApiKey e \<noteq> [] \<longrightarrow> ai = \<lparr>apiKey = getApiKey e\<rparr> \<longrightarrow>
        model = hd (uniqueFallbacks e) \<longrightarrow>
          analyzeWriting e generate =
            (Inr (JObject []), [Invocation (lit ''analyzeWriting'') model []])
          \<and> gradeSpeakingSession e generate =
            (Inr (JObject []), [Invocation (lit ''gradeSpeakingSession'') model []])
          \<and> analyzePronunciation e generate =
            (Inr (JObject []), [Invocation (lit ''analyzePronunciation'') model []])
          \<and> interactWithExaminer e generate synth =
            (Inr (JObject [(lit ''userTranscription'', JString []),
                           (lit ''aiResponse'', JUndefined),
                           (lit ''aiAudioBase64'', JString [])]),
             [Invocation (lit ''interactWithExaminer'') model []]))"
proof (intro conjI impI)
  show j: "jsonAttempt generate model ai = (Inr (JObject []), [])"
    using assms by (rule jsonAttempt_empty_text)
  show x: "examinerAttempt e generate synth model ai =
        (Inr (JObject [(lit ''userTranscription'', JString []), (lit ''aiResponse'', JUndefined),
                       (lit ''aiAudioBase64'', JString [])]), [])"
    using assms by (rule examinerAttempt_empty_text)
  assume key: "getApiKey e \<noteq> []" and ai: "ai = \<lparr>apiKey = getApiKey e\<rparr>"
    and m: "model = hd (uniqueFallbacks e)"
  have j': "jsonAttempt generate (hd (uniqueFallbacks e)) \<lparr>apiKey = getApiKey e\<rparr>
      = (Inr (JObject []), [])"
    using j ai m by simp
  have x': "examinerAttempt e generate synth (hd (uniqueFallbacks e)) \<lparr>apiKey = getApiKey e\<rparr>
      = (Inr (JObject [(lit ''userTranscription'', JString []), (lit ''aiResponse'', JUndefined),
                       (lit ''aiAudioBase64'', JString [])]), [])"
    using x ai m by simp
  show "analyzeWriting e generate =
      (Inr (JObject []), [Invocation (lit ''analyzeWriting'') model []])"
    unfolding analyzeWriting_def m by (rule callAIWithRetry_first [where operationFn = "jsonAttempt generate" and e = e,
          OF key j'])
  show "gradeSpeakingSession e generate =
      (Inr (JObject []), [Invocation (lit ''gradeSpeakingSession'') model []])"
    unfolding gradeSpeakingSession_def m by (rule callAIWithRetry_first [where operationFn = "jsonAttempt generate" and e = e,
          OF key j'])
  show "analyzePronunciation e generate =
      (Inr (JObject []), [Invocation (lit ''analyzePronunciation'') model []])"
    unfolding analyzePronunciation_def m by (rule callAIWithRetry_first [where operationFn = "jsonAttempt generate" and e = e,
          OF key j'])
  show "interactWithExaminer e generate synth =
      (Inr (JObject [(lit ''userTranscription'', JString []),
                     (lit ''aiResponse'', JUndefined),
                     (lit ''aiAudioBase64'', JString [])]),
       [Invocation (lit ''interactWithExaminer'') model []])"
    unfolding interactWithExaminer_def m by (rule callAIWithRetry_first [where operationFn = "examinerAttempt e generate synth"
          and e = e, OF key x'])
qed

theorem C9_empty_text_witness:
  "analyzeWriting browserEnv mute =
     (Inr (JObject []),
      [Invocation (lit ''analyzeWriting'') (lit ''gemini-3-flash-preview'') []])
   \<and> gradeSpeakingSession browserEnv mute =
     (Inr (JObject []),
      [Invocation (lit ''gradeSpeakingSession'') (lit ''gemini-3-flash-preview'') []])
   \<and> analyzePronunciation browserEnv mute =
     (Inr (JObject []),
      [Invocation (lit ''analyzePronunciation'') (lit ''gemini-3-flash-preview'') []])"
proof -
  have g: "mute \<lparr>apiKey = getApiKey browserEnv\<rparr> (hd (uniqueFallbacks browserEnv))
      = Inr (textResponse None)"
    by (simp add: mute_def)
  have t: "\<not> truthyStr (responseText (textResponse None))" by (simp add: textResponse_def)
  have key: "getApiKey browserEnv \<noteq> []" by (simp add: getApiKey_browserEnv lit_def)
  show ?thesis
    using C9_empty_text [where generate = mute and ai = "\<lparr>apiKey = getApiKey browserEnv\<rparr>"
        and model = "hd (uniqueFallbacks browserEnv)" and response = "textResponse None"
        and e = browserEnv and synth = silent, OF g t] key hd_browserEnv
    by simp
qed

text \<open>
  The claim of C9 that the attempt returns an object with no fields fails for
  \<open>interactWithExaminer\<close>: on a response without text it returns an object with the three
  properties \<open>userTranscription\<close>, \<open>aiResponse\<close> and \<open>aiAudioBase64\<close>.
\<close>

theorem C9_examiner_counterexample:
  "fst (interactWithExaminer browserEnv mute silent) =
     Inr (JObject [(lit ''userTranscription'', JString []), (lit ''aiResponse'', JUndefined),
                   (lit ''aiAudioBase64'', JString [])])
   \<and> fst (interactWithExaminer browserEnv mute silent) \<noteq> Inr (JObject [])"
proof -
  have g: "mute \<lparr>apiKey = getApiKey browserEnv\<rparr> (hd (uniqueFallbacks browserEnv))
      = Inr (textResponse None)"
    by (simp add: mute_def)
  have t: "\<not> truthyStr (responseText (textResponse None))" by (simp add: textResponse_def)
  have key: "getApiKey browserEnv \<noteq> []" by (simp add: getApiKey_browserEnv lit_def)
  have "interactWithExaminer browserEnv mute silent =
     (Inr (JObject [(lit ''userTranscription'', JString []), (lit ''aiResponse'', JUndefined),
                   (lit ''aiAudioBase64'', JString [])]),
      [Invocation (lit ''interactWithExaminer'') (hd (uniqueFallbacks browserEnv)) []])"
    unfolding interactWithExaminer_def
    by (rule callAIWithRetry_first [where operationFn = "examinerAttempt browserEnv mute silent"
          and e = browserEnv, OF key
          examinerAttempt_empty_text [where generate = mute
            and ai = "\<lparr>apiKey = getApiKey browserEnv\<rparr>"
            and model = "hd (uniqueFallbacks browserEnv)" and response = "textResponse None",
            OF g t]])
  then show ?thesis by simp
qed

text \<open>
  C10. An attempt of \<open>interactWithExaminer\<close> whose turn was answered and parsed to a
  value with readable properties succeeds whatever the speech capability does. The error
  or the \<open>userTranscription\<close> and \<open>aiResponse\<close> that \<open>interactWithExaminer\<close> returns, and
  the models it tries, are the same for any two speech capabilities. An invocation that
  has synthesis invocations nested in it is the one that produced the result, and the
  \<open>aiResponse\<close> of that result is truthy. When the \<open>aiResponse\<close> of a result is falsy, or
  the synthesis attempts for it fail on the candidates of the chain, the \<open>aiAudioBase64\<close>
  of that result is the empty string.
\<close>

theorem C10_synthesis_isolated:
  "(generate ai model = Inr response \<longrightarrow>
      JSON_parse (cleanJsonString
        (if truthyStr (responseText response) then the (responseText response)
         else lit ''{}'')) = Inr result \<longrightarrow>
      getProp result (lit ''response'') = Inr resp \<longrightarrow>
      (\<exists>v. fst (examinerAttempt e generate synth model ai) = Inr v))
   \<and> map_sum id (\<lambda>v. (getProp v (lit ''userTranscription''), getProp v (lit ''aiResponse'')))
        (fst (interactWithExaminer e generate synth))
     = map_sum id (\<lambda>v. (getProp v (lit ''userTranscription''), getProp v (lit ''aiResponse'')))
        (fst (interactWithExaminer e generate synth'))
   \<and> map invModel (snd (interactWithExaminer e generate synth))
     = map invModel (snd (interactWithExaminer e generate synth'))
   \<and> (\<forall>call \<in> set (snd (interactWithExaminer e generate synth)).
        invNested call \<noteq> [] \<longrightarrow>
        (\<exists>v r. fst (interactWithExaminer e generate synth) = Inr v
           \<and> getProp v (lit ''aiResponse'') = Inr r \<and> truthy r))
   \<and> (\<forall>v r. fst (interactWithExaminer e generate synth) = Inr v \<longrightarrow>
        getProp v (lit ''aiResponse'') = Inr r \<longrightarrow>
        \<not> truthy r \<or> (\<forall>m \<in> set (uniqueFallbacks e).
            isl (fst (speechAttempt (synth r) m \<lparr>apiKey = getApiKey e\<rparr>))) \<longrightarrow>
        getProp v (lit ''aiAudioBase64'') = Inr (JString []))"
proof (intro conjI impI ballI allI)
  assume g: "generate ai model = Inr response"
    and p: "JSON_parse (cleanJsonString
        (if truthyStr (responseText response) then the (responseText response)
         else lit ''{}'')) = Inr result"
    and r: "getProp result (lit ''response'') = Inr resp"
  from examinerAttempt_parsed [where generate = generate and ai = ai and model = model
      and e = e and synth = synth, OF g p r]
  show "\<exists>v. fst (examinerAttempt e generate synth model ai) = Inr v" by auto
next
  note proj = callAIWithRetry_projection [where
      operationFn = "examinerAttempt e generate synth"
      and operationFn' = "examinerAttempt e generate synth'"
      and f = "\<lambda>v. (getProp v (lit ''userTranscription''), getProp v (lit ''aiResponse''))"
      and e = e and operationName = "lit ''interactWithExaminer''",
      OF examinerAttempt_projection]
  show "map_sum id (\<lambda>v. (getProp v (lit ''userTranscription''), getProp v (lit ''aiResponse'')))
        (fst (interactWithExaminer e generate synth))
     = map_sum id (\<lambda>v. (getProp v (lit ''userTranscription''), getProp v (lit ''aiResponse'')))
        (fst (interactWithExaminer e generate synth'))"
    unfolding interactWithExaminer_def using proj by blast
  show "map invModel (snd (interactWithExaminer e generate synth))
     = map invModel (snd (interactWithExaminer e generate synth'))"
    unfolding interactWithExaminer_def using proj by blast
next
  fix call
  assume mem: "call \<in> set (snd (interactWithExaminer e generate synth))"
    and nested: "invNested call \<noteq> []"
  let ?ai = "\<lparr>apiKey = getApiKey e\<rparr>"
  from callAIWithRetry_trace_members [OF mem [unfolded interactWithExaminer_def]]
  obtain m where
    c: "call = Invocation (lit ''interactWithExaminer'') m
          (snd (examinerAttempt e generate synth m ?ai))"
    and last: "isl (fst (examinerAttempt e generate synth m ?ai))
        \<or> fst (interactWithExaminer e generate synth)
            = fst (examinerAttempt e generate synth m ?ai)"
    unfolding interactWithExaminer_def by blast
  have "snd (examinerAttempt e generate synth m ?ai) \<noteq> []" using c nested by simp
  from examinerAttempt_nested [OF this] obtain v r where
    v: "fst (examinerAttempt e generate synth m ?ai) = Inr v"
    and r: "getProp v (lit ''aiResponse'') = Inr r" "truthy r"
    by blast
  have "fst (interactWithExaminer e generate synth) = Inr v" using last v by auto
  then show "\<exists>v r. fst (interactWithExaminer e generate synth) = Inr v
           \<and> getProp v (lit ''aiResponse'') = Inr r \<and> truthy r"
    using r by blast
next
  fix v r
  assume ok: "fst (interactWithExaminer e generate synth) = Inr v"
    and r: "getProp v (lit ''aiResponse'') = Inr r"
    and h: "\<not> truthy r \<or> (\<forall>m \<in> set (uniqueFallbacks e).
            isl (fst (speechAttempt (synth r) m \<lparr>apiKey = getApiKey e\<rparr>)))"
  from callAIWithRetry_result_from [OF ok [unfolded interactWithExaminer_def]]
  obtain m where "fst (examinerAttempt e generate synth m \<lparr>apiKey = getApiKey e\<rparr>) = Inr v"
    by blast
  then show "getProp v (lit ''aiAudioBase64'') = Inr (JString [])"
    using r h by (rule examinerAttempt_local_audio)
qed

theorem C10_synthesis_isolated_witness:
  "list_all (\<lambda>m. isl (fst (speechAttempt (picky (JString (lit ''Hello''))) m
                          \<lparr>apiKey = getApiKey browserEnv\<rparr>)))
     (uniqueFallbacks browserEnv)
   \<and> \<not> isl (fst (speechAttempt (picky (JString (lit ''Hello'')))
                   (lit ''gemini-2.5-flash-preview-tts'') \<lparr>apiKey = getApiKey browserEnv\<rparr>))
   \<and> fst (interactWithExaminer browserEnv chatty picky) =
       Inr (JObject [(lit ''userTranscription'', JString (lit ''hi'')),
                     (lit ''aiResponse'', JString (lit ''Hello'')),
                     (lit ''aiAudioBase64'', JString [])])
   \<and> getProp (JObject [(lit ''userTranscription'', JString (lit ''hi'')),
                       (lit ''aiResponse'', JString (lit ''Hello'')),
                       (lit ''aiAudioBase64'', JString [])]) (lit ''aiAudioBase64'')
       = Inr (JString [])
   \<and> (\<exists>call \<in> set (snd (interactWithExaminer browserEnv chatty picky)).
         invNested call \<noteq> [])
   \<and> (\<exists>v r. fst (interactWithExaminer browserEnv chatty picky) = Inr v
         \<and> getProp v (lit ''aiResponse'') = Inr r \<and> truthy r)"
proof -
  have fails: "\<forall>m \<in> set (uniqueFallbacks browserEnv).
       isl (fst (speechAttempt (picky (JString (lit ''Hello''))) m
                   \<lparr>apiKey = getApiKey browserEnv\<rparr>))"
    by (simp add: uniqueFallbacks_browserEnv speechAttempt_def picky_def lit_def)
  have answers: "\<not> isl (fst (speechAttempt (picky (JString (lit ''Hello'')))
                   (lit ''gemini-2.5-flash-preview-tts'') \<lparr>apiKey = getApiKey browserEnv\<rparr>))"
    by (simp add: speechAttempt_def picky_def base64Audio_audioResponse lit_def)
  have res: "fst (interactWithExaminer browserEnv chatty picky) =
       Inr (JObject [(lit ''userTranscription'', JString (lit ''hi'')),
                     (lit ''aiResponse'', JString (lit ''Hello'')),
                     (lit ''aiAudioBase64'', JString [])])"
    by (simp add: interact_chatty_picky)
  have rr: "getProp (JObject [(lit ''userTranscription'', JString (lit ''hi'')),
                     (lit ''aiResponse'', JString (lit ''Hello'')),
                     (lit ''aiAudioBase64'', JString [])]) (lit ''aiResponse'')
      = Inr (JString (lit ''Hello''))"
    by (rule result_fields)
  have mem: "\<exists>call \<in> set (snd (interactWithExaminer browserEnv chatty picky)).
         invNested call \<noteq> []"
    by (simp add: interact_chatty_picky)
  show ?thesis
    unfolding list_all_iff
    using C10_synthesis_isolated [of chatty _ _ _ _ _ browserEnv picky picky]
      fails answers res rr mem
    by blast
qed

end
